theory Spec2Isabelle
  imports Main "HOL-Library.Word" "HOL-Library.Multiset" "HOL-Library.Sublist"
begin

unbundle bit_operations_syntax

text \<open>
  A shallow embedding of the GPU device and resource lifecycle code of the TTauri toolkit:
  the negotiation of queue families and the scoring of physical devices (\<open>Device.cpp\<close>),
  the choice of the best device for a window (\<open>Instance_base.cpp\<close>) and the build,
  teardown and render operations of a rendering pipeline (\<open>Pipeline_vulkan.cpp\<close>).
  The definitions come first, each translated from the function of the same name; the
  properties follow, grouped by component.
\<close>

section \<open>Queue capabilities\<close>

text \<open>
  The fields of \<open>QueueCapabilities\<close> are the ones \<open>Device::findBestQueueFamilyIndices\<close>
  assigns (\<open>handlesGraphics\<close>, \<open>handlesPresent\<close>, \<open>handlesCompute\<close>). The class itself
  (its constructor, predicates and operators) is declared in a header that is missing
  from the sources; its members are modelled below from their uses in \<open>Device.cpp\<close>
  and from the description of the data model.
\<close>

record QueueCapabilities =
  handlesGraphics :: bool
  handlesPresent :: bool
  handlesCompute :: bool

text \<open>Modelled from the spec: the default constructor of \<open>QueueCapabilities\<close> (header
  missing); a fresh value handles no role.\<close>

definition QueueCapabilities_init :: QueueCapabilities where
  "QueueCapabilities_init =
     \<lparr>handlesGraphics = False, handlesPresent = False, handlesCompute = False\<rparr>"

text \<open>Modelled from the spec: \<open>QueueCapabilities::handlesEverything\<close> (header missing),
  the derived predicate "handles-everything": all three roles.\<close>

definition handlesEverything :: "QueueCapabilities \<Rightarrow> bool" where
  "handlesEverything c = (handlesGraphics c \<and> handlesPresent c \<and> handlesCompute c)"

text \<open>Modelled from the spec: \<open>QueueCapabilities::handlesGraphicsAndPresent\<close> (header
  missing).\<close>

definition handlesGraphicsAndPresent :: "QueueCapabilities \<Rightarrow> bool" where
  "handlesGraphicsAndPresent c = (handlesGraphics c \<and> handlesPresent c)"

text \<open>Modelled from the spec: \<open>QueueCapabilities::handlesGraphicsAndCompute\<close> (header
  missing).\<close>

definition handlesGraphicsAndCompute :: "QueueCapabilities \<Rightarrow> bool" where
  "handlesGraphicsAndCompute c = (handlesGraphics c \<and> handlesCompute c)"

text \<open>Modelled from the spec: \<open>QueueCapabilities::handlesAllOff\<close> (header missing).
  \<open>total.handlesAllOff(caps)\<close> holds when \<open>caps\<close> is a subset of \<open>total\<close>: a family
  is accepted only if its capability set is not a subset of what is already accumulated.\<close>

definition handlesAllOff :: "QueueCapabilities \<Rightarrow> QueueCapabilities \<Rightarrow> bool" where
  "handlesAllOff self other =
     ((handlesGraphics self \<or> \<not> handlesGraphics other) \<and>
      (handlesPresent self \<or> \<not> handlesPresent other) \<and>
      (handlesCompute self \<or> \<not> handlesCompute other))"

text \<open>Modelled from the spec: \<open>operator-\<close> of \<open>QueueCapabilities\<close> (header missing),
  the set difference.\<close>

definition QueueCapabilities_minus ::
  "QueueCapabilities \<Rightarrow> QueueCapabilities \<Rightarrow> QueueCapabilities" where
  "QueueCapabilities_minus a b =
     \<lparr>handlesGraphics = (handlesGraphics a \<and> \<not> handlesGraphics b),
      handlesPresent = (handlesPresent a \<and> \<not> handlesPresent b),
      handlesCompute = (handlesCompute a \<and> \<not> handlesCompute b)\<rparr>"

text \<open>Modelled from the spec: \<open>operator|=\<close> of \<open>QueueCapabilities\<close> (header missing),
  the set union.\<close>

definition QueueCapabilities_or ::
  "QueueCapabilities \<Rightarrow> QueueCapabilities \<Rightarrow> QueueCapabilities" where
  "QueueCapabilities_or a b =
     \<lparr>handlesGraphics = (handlesGraphics a \<or> handlesGraphics b),
      handlesPresent = (handlesPresent a \<or> handlesPresent b),
      handlesCompute = (handlesCompute a \<or> handlesCompute b)\<rparr>"

text \<open>Modelled from the spec: \<open>QueueCapabilities::score\<close> (header missing). The weights
  are the ones \<open>findBestQueueFamilyIndices\<close> recomputes for its log line (Device.cpp lines
  135 to 140): all three roles score highest, then graphics with present, then each role.\<close>

definition QueueCapabilities_score :: "QueueCapabilities \<Rightarrow> 32 word" where
  "QueueCapabilities_score c =
     (let score = 0;
          score = score + (if handlesEverything c then 10 else 0);
          score = score + (if handlesGraphicsAndPresent c then 5 else 0);
          score = score + (if handlesGraphics c then 1 else 0);
          score = score + (if handlesPresent c then 1 else 0);
          score = score + (if handlesCompute c then 1 else 0)
      in score)"


section \<open>The physical device as the selector sees it\<close>

datatype ColorSpaceKHR =
    eSrgbNonlinear
  | eDisplayP3NonlinearEXT
  | eExtendedSrgbLinearEXT
  | eDciP3LinearEXT
  | eBt709LinearEXT
  | eHdr10St2084EXT
  | eAdobergbLinearEXT
  | eExtendedSrgbNonlinearEXT

datatype Format =
    eUndefined
  | eR8G8B8Unorm
  | eR8G8B8A8Unorm
  | eB8G8R8A8Unorm
  | eB8G8R8A8Srgb
  | eA2R10G10B10UnormPack32
  | eR16G16B16A16Sfloat

record SurfaceFormatKHR =
  format :: Format
  colorSpace :: ColorSpaceKHR

datatype PresentModeKHR =
    eImmediate
  | eMailbox
  | eFifo
  | eFifoRelaxed
  | eSharedDemandRefresh
  | eSharedContinuousRefresh

datatype PhysicalDeviceType =
    eOther
  | eIntegratedGpu
  | eDiscreteGpu
  | eVirtualGpu
  | eCpu

text \<open>
  What the Vulkan queries of \<open>Device::score\<close> and \<open>Device::findBestQueueFamilyIndices\<close>
  return for one physical device and the window's surface. \<open>queueFamilyProperties\<close> holds
  the \<open>queueFlags\<close> of each family in enumeration order, \<open>surfaceSupportKHR\<close> answers
  \<open>getSurfaceSupportKHR(index, surface)\<close>. The helpers \<open>hasRequiredFeatures\<close>,
  \<open>meetsRequiredLimits\<close> and \<open>hasRequiredExtensions\<close> live in \<open>vulkan_utils.hpp\<close>, which
  is missing from the sources: their verdicts on this device are taken as given.
\<close>

record PhysicalDevice =
  hasRequiredFeatures :: bool
  meetsRequiredLimits :: bool
  hasRequiredExtensions :: bool
  queueFamilyProperties :: "32 word list"
  surfaceSupportKHR :: "nat \<Rightarrow> bool"
  surfaceFormatsKHR :: "SurfaceFormatKHR list"
  surfacePresentModesKHR :: "PresentModeKHR list"
  deviceType :: PhysicalDeviceType

text \<open>The members of \<open>Device\<close> that \<open>Device::score\<close> reads and writes.\<close>

record Device =
  physicalIntrinsic :: PhysicalDevice
  queueFamilyIndicesAndCapabilities :: "(nat \<times> QueueCapabilities) list"
  bestSurfaceFormat :: SurfaceFormatKHR
  bestSurfacePresentMode :: PresentModeKHR

definition eGraphics :: "32 word" where
  "eGraphics = 1"

definition eCompute :: "32 word" where
  "eCompute = 2"

section \<open>Queue Capability Negotiator: \<open>Device::findBestQueueFamilyIndices\<close>\<close>

type_synonym queueFamily = "nat \<times> QueueCapabilities"

definition scoreIsGreater :: "queueFamily \<Rightarrow> queueFamily \<Rightarrow> bool" where
  "scoreIsGreater a b = (QueueCapabilities_score (snd a) > QueueCapabilities_score (snd b))"

text \<open>
  The first loop: one (index, capabilities) pair per queue family, in enumeration order.
  The index is a \<open>uint32_t\<close> counting the families of a list whose length Vulkan itself
  reports as a \<open>uint32_t\<close>, so it cannot wrap and is modelled as a natural number.
\<close>

fun queueFamilieScoresFrom ::
  "PhysicalDevice \<Rightarrow> nat \<Rightarrow> 32 word list \<Rightarrow> queueFamily list" where
  "queueFamilieScoresFrom pd index [] = []"
| "queueFamilieScoresFrom pd index (queueFlags # rest) =
     (let capabilities = QueueCapabilities_init;
          capabilities =
            (if queueFlags AND eGraphics \<noteq> 0
             then capabilities\<lparr>handlesGraphics := True\<rparr> else capabilities);
          capabilities =
            (if surfaceSupportKHR pd index
             then capabilities\<lparr>handlesPresent := True\<rparr> else capabilities);
          capabilities =
            (if queueFlags AND eCompute \<noteq> 0
             then capabilities\<lparr>handlesCompute := True\<rparr> else capabilities)
      in (index, capabilities) # queueFamilieScoresFrom pd (index + 1) rest)"

definition queueFamilieScores :: "PhysicalDevice \<Rightarrow> queueFamily list" where
  "queueFamilieScores pd = queueFamilieScoresFrom pd 0 (queueFamilyProperties pd)"

text \<open>
  The source sorts with \<open>std::sort\<close> and the comparator \<open>scoreIsGreater\<close>. The library
  routine is outside the repository, so the sort is a parameter of the model; what the
  C++ standard promises of it on an input \<open>xs\<close> is \<open>std_sort_post\<close>: the result is a
  permutation of \<open>xs\<close> in which no later element compares greater than an earlier one.
  The standard promises nothing about the order of elements that compare equal. The
  routine of the GNU C++ library is embedded below as \<open>std_sort\<close>.
\<close>

type_synonym sortFn = "queueFamily list \<Rightarrow> queueFamily list"

definition std_sort_post :: "sortFn \<Rightarrow> queueFamily list \<Rightarrow> bool" where
  "std_sort_post srt xs =
     (mset (srt xs) = mset xs \<and> sorted_wrt (\<lambda>a b. \<not> scoreIsGreater b a) (srt xs))"

text \<open>The second loop: the greedy walk over the sorted families.\<close>

fun greedyWalk ::
  "queueFamily list \<Rightarrow> queueFamily list \<times> QueueCapabilities \<Rightarrow>
   queueFamily list \<times> QueueCapabilities" where
  "greedyWalk [] st = st"
| "greedyWalk ((index, capabilities) # rest) (result, totalCapabilities) =
     (if \<not> handlesAllOff totalCapabilities capabilities
      then greedyWalk rest
             (result @ [(index, QueueCapabilities_minus capabilities totalCapabilities)],
              QueueCapabilities_or totalCapabilities capabilities)
      else greedyWalk rest (result, totalCapabilities))"

definition findBestQueueFamilyIndices :: "sortFn \<Rightarrow> PhysicalDevice \<Rightarrow> queueFamily list" where
  "findBestQueueFamilyIndices srt pd =
     fst (greedyWalk (srt (queueFamilieScores pd)) ([], QueueCapabilities_init))"

text \<open>The union of the capability sets of a list of (index, capability) pairs.\<close>

definition unionOfCapabilities :: "queueFamily list \<Rightarrow> QueueCapabilities" where
  "unionOfCapabilities xs =
     fold (\<lambda>x acc. QueueCapabilities_or acc (snd x)) xs QueueCapabilities_init"

text \<open>
  The sort as the specification words it, a stable sort by descending score: an insertion
  sort that places an element before the elements of equal score that followed it in the
  input. It meets \<open>std_sort_post\<close>, and the order \<open>std::sort\<close> leaves is compared with
  the order it gives.
\<close>

fun insertBefore :: "queueFamily \<Rightarrow> queueFamily list \<Rightarrow> queueFamily list" where
  "insertBefore x [] = [x]"
| "insertBefore x (y # ys) =
     (if scoreIsGreater y x then y # insertBefore x ys else x # y # ys)"

definition stableSort :: sortFn where
  "stableSort xs = foldr insertBefore xs []"

section \<open>\<open>std::sort\<close> as the GNU C++ library implements it\<close>






text \<open>The two inner loops of \<open>__unguarded_partition\<close>:
  \<open>while (comp(first, pivot)) ++first\<close> and \<open>while (comp(pivot, last)) --last\<close>.\<close>

function scanForward :: "queueFamily list \<Rightarrow> nat \<Rightarrow> nat \<Rightarrow> nat" where
  "scanForward xs pivot first =
     (if first < length xs \<and> scoreIsGreater (xs ! first) (xs ! pivot)
      then scanForward xs pivot (first + 1) else first)"
  by pat_completeness auto
termination
  by (relation "measure (\<lambda>(xs, pivot, first). length xs - first)") auto

declare scanForward.simps [simp del]














section \<open>Device Selector: \<open>Device::score\<close>\<close>

text \<open>The two switches of the surface-format loop; \<open>None\<close> is the \<open>continue\<close> of the
  default branch.\<close>

fun colorSpaceScore :: "ColorSpaceKHR \<Rightarrow> 32 word option" where
  "colorSpaceScore eSrgbNonlinear = Some 1"
| "colorSpaceScore eExtendedSrgbNonlinearEXT = Some 100"
| "colorSpaceScore _ = None"

fun formatScore :: "Format \<Rightarrow> 32 word option" where
  "formatScore eR8G8B8Unorm = Some 1"
| "formatScore eR16G16B16A16Sfloat = Some 10"
| "formatScore eUndefined = Some 2"
| "formatScore _ = None"

definition surfaceFormatScore :: "SurfaceFormatKHR \<Rightarrow> 32 word option" where
  "surfaceFormatScore f =
     (case colorSpaceScore (colorSpace f) of
        None \<Rightarrow> None
      | Some s1 \<Rightarrow>
          (case formatScore (format f) of
             None \<Rightarrow> None
           | Some s2 \<Rightarrow> Some (0 + s1 + s2)))"

fun surfaceFormatLoop ::
  "SurfaceFormatKHR list \<Rightarrow> 32 word \<times> SurfaceFormatKHR \<Rightarrow> 32 word \<times> SurfaceFormatKHR" where
  "surfaceFormatLoop [] st = st"
| "surfaceFormatLoop (f # formats) (bestSurfaceFormatScore, best) =
     (case surfaceFormatScore f of
        None \<Rightarrow> surfaceFormatLoop formats (bestSurfaceFormatScore, best)
      | Some score \<Rightarrow>
          (if score > bestSurfaceFormatScore
           then surfaceFormatLoop formats (score, f)
           else surfaceFormatLoop formats (bestSurfaceFormatScore, best)))"

fun presentModeScore :: "PresentModeKHR \<Rightarrow> 32 word option" where
  "presentModeScore eImmediate = Some 1"
| "presentModeScore eFifoRelaxed = Some 2"
| "presentModeScore eFifo = Some 3"
| "presentModeScore eMailbox = Some 10"
| "presentModeScore _ = None"

fun presentModeLoop ::
  "PresentModeKHR list \<Rightarrow> 32 word \<times> PresentModeKHR \<Rightarrow> 32 word \<times> PresentModeKHR" where
  "presentModeLoop [] st = st"
| "presentModeLoop (presentMode # presentModes) (bestSurfacePresentModeScore, best) =
     (case presentModeScore presentMode of
        None \<Rightarrow> presentModeLoop presentModes (bestSurfacePresentModeScore, best)
      | Some score \<Rightarrow>
          (if score > bestSurfacePresentModeScore
           then presentModeLoop presentModes (score, presentMode)
           else presentModeLoop presentModes (bestSurfacePresentModeScore, best)))"

fun deviceTypeScore :: "PhysicalDeviceType \<Rightarrow> 32 word" where
  "deviceTypeScore eCpu = 1"
| "deviceTypeScore eOther = 1"
| "deviceTypeScore eVirtualGpu = 2"
| "deviceTypeScore eIntegratedGpu = 3"
| "deviceTypeScore eDiscreteGpu = 4"

text \<open>
  \<open>Device::score\<close>: the returned \<open>int\<close> and the device with its members updated. The
  running \<open>score\<close> is a \<open>uint32_t\<close>; the final \<open>return score\<close> converts it to \<open>int\<close>
  (\<open>sint\<close>).
\<close>

definition Device_score :: "sortFn \<Rightarrow> Device \<Rightarrow> int \<times> Device" where
  "Device_score srt d =
     (let pd = physicalIntrinsic d; score = (0 :: 32 word) in
      if \<not> hasRequiredFeatures pd then (- 1, d)
      else if \<not> meetsRequiredLimits pd then (- 1, d)
      else if \<not> hasRequiredExtensions pd then (- 1, d)
      else
        let d = d\<lparr>queueFamilyIndicesAndCapabilities := findBestQueueFamilyIndices srt pd\<rparr>;
            deviceCapabilities = unionOfCapabilities (queueFamilyIndicesAndCapabilities d)
        in
        if \<not> handlesGraphicsAndCompute deviceCapabilities then (- 1, d)
        else if \<not> handlesPresent deviceCapabilities then (0, d)
        else
          let (bestSurfaceFormatScore, bestFormat) =
                surfaceFormatLoop (surfaceFormatsKHR pd) (0, bestSurfaceFormat d);
              d = d\<lparr>bestSurfaceFormat := bestFormat\<rparr>;
              score = score + bestSurfaceFormatScore
          in
          if score < bestSurfaceFormatScore then (0, d)
          else
            let (bestSurfacePresentModeScore, bestMode) =
                  presentModeLoop (surfacePresentModesKHR pd) (0, bestSurfacePresentMode d);
                d = d\<lparr>bestSurfacePresentMode := bestMode\<rparr>;
                score = score + bestSurfacePresentModeScore
            in
            if score < bestSurfacePresentModeScore then (0, d)
            else
              let score = score + deviceTypeScore (deviceType pd)
              in (sint score, d))"

section \<open>Device Selector: \<open>Instance_base::findBestDeviceForWindow\<close>\<close>

text \<open>
  The loop over \<open>devices\<close>. The returned pointer is modelled as the position of the
  device in the list (\<open>None\<close> is \<open>nullptr\<close>); \<open>i\<close> is the position of the device at
  the head of the remaining list.
\<close>

fun findBestDeviceLoop ::
  "sortFn \<Rightarrow> Device list \<Rightarrow> nat \<Rightarrow> int \<times> nat option \<Rightarrow> int \<times> nat option" where
  "findBestDeviceLoop srt [] i st = st"
| "findBestDeviceLoop srt (device # rest) i (bestScore, bestDevice) =
     (let score = fst (Device_score srt device) in
      if score \<ge> bestScore
      then findBestDeviceLoop srt rest (i + 1) (score, Some i)
      else findBestDeviceLoop srt rest (i + 1) (bestScore, bestDevice))"

definition findBestDeviceForWindow :: "sortFn \<Rightarrow> Device list \<Rightarrow> nat option" where
  "findBestDeviceForWindow srt devices =
     (case findBestDeviceLoop srt devices 0 (- 1, None) of
        (bestScore, bestDevice) \<Rightarrow>
          if bestScore = - 1 then None
          else bestDevice)"

text \<open>Shorthands for stating what \<open>Device::score\<close> computes: the three manifest
  checks, the capabilities of the negotiated queue assignment, and the sum the function
  accumulates once a device passed every check.\<close>

definition meetsRequirements :: "PhysicalDevice \<Rightarrow> bool" where
  "meetsRequirements pd =
     (hasRequiredFeatures pd \<and> meetsRequiredLimits pd \<and> hasRequiredExtensions pd)"

definition deviceCapabilities :: "sortFn \<Rightarrow> PhysicalDevice \<Rightarrow> QueueCapabilities" where
  "deviceCapabilities srt pd = unionOfCapabilities (findBestQueueFamilyIndices srt pd)"

definition bestFormatScore :: "Device \<Rightarrow> 32 word" where
  "bestFormatScore d =
     fst (surfaceFormatLoop (surfaceFormatsKHR (physicalIntrinsic d)) (0, bestSurfaceFormat d))"

definition bestModeScore :: "Device \<Rightarrow> 32 word" where
  "bestModeScore d =
     fst (presentModeLoop (surfacePresentModesKHR (physicalIntrinsic d))
            (0, bestSurfacePresentMode d))"

definition qualityScore :: "Device \<Rightarrow> int" where
  "qualityScore d =
     uint (bestFormatScore d) + uint (bestModeScore d) +
     uint (deviceTypeScore (deviceType (physicalIntrinsic d)))"

definition modeConsistent :: "32 word \<times> PresentModeKHR \<Rightarrow> bool" where
  "modeConsistent st = (fst st = 0 \<or> presentModeScore (snd st) = Some (fst st))"

section \<open>Example devices\<close>

text \<open>
  Four candidates on which the model is run: an integrated GPU with one queue family that
  does everything, a discrete GPU whose roles are spread over three families and which
  offers mailbox presentation and an extended-range format, the same GPU without any
  family that can present, and the same GPU lacking a required extension.
\<close>

definition integratedGpu :: Device where
  "integratedGpu =
     \<lparr>physicalIntrinsic =
        \<lparr>hasRequiredFeatures = True, meetsRequiredLimits = True, hasRequiredExtensions = True,
         queueFamilyProperties = [7],
         surfaceSupportKHR = (\<lambda>i. i = 0),
         surfaceFormatsKHR =
           [\<lparr>format = eB8G8R8A8Unorm, colorSpace = eSrgbNonlinear\<rparr>,
            \<lparr>format = eUndefined, colorSpace = eSrgbNonlinear\<rparr>],
         surfacePresentModesKHR = [eFifoRelaxed, eFifo],
         deviceType = eIntegratedGpu\<rparr>,
      queueFamilyIndicesAndCapabilities = [],
      bestSurfaceFormat = \<lparr>format = eUndefined, colorSpace = eSrgbNonlinear\<rparr>,
      bestSurfacePresentMode = eImmediate\<rparr>"

definition discreteGpu :: Device where
  "discreteGpu =
     \<lparr>physicalIntrinsic =
        \<lparr>hasRequiredFeatures = True, meetsRequiredLimits = True, hasRequiredExtensions = True,
         queueFamilyProperties = [4, 2, 1],
         surfaceSupportKHR = (\<lambda>i. i = 2),
         surfaceFormatsKHR =
           [\<lparr>format = eB8G8R8A8Unorm, colorSpace = eSrgbNonlinear\<rparr>,
            \<lparr>format = eR16G16B16A16Sfloat, colorSpace = eExtendedSrgbNonlinearEXT\<rparr>],
         surfacePresentModesKHR = [eImmediate, eMailbox, eFifo],
         deviceType = eDiscreteGpu\<rparr>,
      queueFamilyIndicesAndCapabilities = [],
      bestSurfaceFormat = \<lparr>format = eUndefined, colorSpace = eSrgbNonlinear\<rparr>,
      bestSurfacePresentMode = eImmediate\<rparr>"

definition headlessGpu :: Device where
  "headlessGpu =
     discreteGpu\<lparr>physicalIntrinsic :=
       (physicalIntrinsic discreteGpu)\<lparr>surfaceSupportKHR := (\<lambda>i. False)\<rparr>\<rparr>"

definition unfitGpu :: Device where
  "unfitGpu =
     discreteGpu\<lparr>physicalIntrinsic :=
       (physicalIntrinsic discreteGpu)\<lparr>hasRequiredExtensions := False\<rparr>\<rparr>"

text \<open>A candidate with its list of supported present modes, or of supported surface
  formats, replaced, and a list with one more entry at position \<open>k\<close> (for stating how
  the score depends on these lists).\<close>

definition insertAt :: "nat \<Rightarrow> 'a \<Rightarrow> 'a list \<Rightarrow> 'a list" where
  "insertAt k x xs = take k xs @ x # drop k xs"

definition withPresentModes :: "Device \<Rightarrow> PresentModeKHR list \<Rightarrow> Device" where
  "withPresentModes d ms =
     d\<lparr>physicalIntrinsic := (physicalIntrinsic d)\<lparr>surfacePresentModesKHR := ms\<rparr>\<rparr>"

definition withSurfaceFormats :: "Device \<Rightarrow> SurfaceFormatKHR list \<Rightarrow> Device" where
  "withSurfaceFormats d fs =
     d\<lparr>physicalIntrinsic := (physicalIntrinsic d)\<lparr>surfaceFormatsKHR := fs\<rparr>\<rparr>"






section \<open>Pipeline Resource Manager: \<open>Pipeline_vulkan\<close>\<close>

text \<open>
  Vulkan objects are opaque handles. The model gives every object the device creates a
  fresh natural number; \<open>0\<close> is the null handle of a default-constructed \<open>vk::DeviceMemory\<close>
  or \<open>vk::Semaphore\<close>.
\<close>

type_synonym handle = nat

record Extent2D =
  width :: "32 word"
  height :: "32 word"

text \<open>
  The calls the pipeline makes on the Vulkan device, its queue and its command buffers, in
  the order it makes them. The trace is what the outside world sees of a pipeline operation:
  a command buffer is recorded once for every \<open>CmdBegin\<close> on it.
\<close>

datatype VkCall =
    CreateShaderModule handle
  | DestroyShaderModule handle
  | CreateBuffer handle nat
  | DestroyBuffer handle
  | AllocateMemory handle "handle list"
  | MapMemory handle nat
  | UnmapMemory handle
  | FreeMemory handle
  | AllocateCommandBuffers "handle list"
  | FreeCommandBuffers "handle list"
  | CreateSemaphore handle
  | DestroySemaphore handle
  | CreatePipelineLayout handle
  | DestroyPipelineLayout handle
  | CreateGraphicsPipeline handle handle Extent2D "handle list"
  | DestroyPipeline handle
  | CmdReset handle
  | CmdBegin handle
  | CmdBeginRenderPass handle handle handle Extent2D
  | CmdBindPipeline handle handle
  | CmdBindVertexBuffers handle "handle list" "nat list"
  | CmdDraw handle
  | CmdEndRenderPass handle
  | CmdEnd handle
  | QueueSubmit handle handle handle

datatype container =
    CommandBuffersValid
  | CommandBuffers
  | RenderFinishedSemaphores
  | VertexBuffers
  | Scissors
  | SwapchainFramebuffers
  | VertexBufferOffsets

text \<open>
  What ends an operation early: an index outside a vector (undefined behaviour of
  \<open>operator[]\<close> and of \<open>back()\<close> on an empty vector, made a value here), and the
  exception of \<open>boost::numeric_cast\<close>.
\<close>

datatype error =
    OutOfRange container
  | BadNumericCast

text \<open>
  The state a pipeline operation works on. Besides the members of \<open>Pipeline_vulkan\<close>
  it holds what the operation reaches through its \<open>device\<close> and \<open>window\<close> pointers
  (the device's handle supply and call trace, the window's \<open>swapchainFramebuffers\<close>) and
  what the pure virtual functions of the concrete pipeline supply (\<open>nrShaders\<close> for
  \<open>createShaderModules\<close> and \<open>createShaderStages\<close>, \<open>vertexStride\<close> for
  \<open>createVertexInputBindingDescription\<close>, \<open>maximumNumberOfVertices\<close>). The subclasses
  and \<open>Device_vulkan\<close> are missing from the sources.
\<close>

record Pipeline_vulkan =
  nextHandle :: handle
  calls :: "VkCall list"
  swapchainFramebuffers :: "handle list"
  nrShaders :: nat
  vertexStride :: nat
  maximumNumberOfVertices :: nat
  shaderModules :: "handle list"
  shaderStages :: "handle list"
  vertexBuffers :: "handle list"
  vertexBufferMemory :: handle
  vertexBufferOffsets :: "nat list"
  vertexBufferSizes :: "nat list"
  vertexBufferDataSize :: nat
  vertexBufferData :: "handle option"
  commandBuffers :: "handle list"
  commandBuffersValid :: "bool list"
  renderFinishedSemaphores :: "handle list"
  renderPass :: handle
  pipelineLayout :: handle
  viewports :: "Extent2D list"
  scissors :: "Extent2D list"
  intrinsic :: handle

text \<open>Sequencing of operations that may fail: the first error ends the sequence.\<close>

definition andThen :: "error + 'a \<Rightarrow> ('a \<Rightarrow> error + 'b) \<Rightarrow> error + 'b" where
  "andThen r f = (case r of Inl e \<Rightarrow> Inl e | Inr x \<Rightarrow> f x)"

text \<open>Appending a call to the trace, and drawing the next fresh handle.\<close>

definition vkCall :: "VkCall \<Rightarrow> Pipeline_vulkan \<Rightarrow> Pipeline_vulkan" where
  "vkCall c p = p\<lparr>calls := calls p @ [c]\<rparr>"

definition vkCalls :: "VkCall list \<Rightarrow> Pipeline_vulkan \<Rightarrow> Pipeline_vulkan" where
  "vkCalls cs p = p\<lparr>calls := calls p @ cs\<rparr>"

definition vkFresh :: "Pipeline_vulkan \<Rightarrow> handle \<times> Pipeline_vulkan" where
  "vkFresh p = (nextHandle p, p\<lparr>nextHandle := nextHandle p + 1\<rparr>)"

text \<open>\<open>std::vector::resize\<close>: cut or pad with value-initialised elements.\<close>

definition resize :: "'a list \<Rightarrow> nat \<Rightarrow> 'a \<Rightarrow> 'a list" where
  "resize xs n v = take n xs @ replicate (n - length xs) v"

subsection \<open>Shaders\<close>

text \<open>Modelled from the spec: \<open>createShaderModules\<close> and \<open>createShaderStages\<close>, pure
  virtual in \<open>Pipeline_vulkan\<close> (the concrete pipelines are missing). Building the
  shaders creates the shader modules of the pipeline, \<open>nrShaders\<close> of them, and one shader
  stage per module.\<close>

definition buildShaders :: "Pipeline_vulkan \<Rightarrow> Pipeline_vulkan" where
  "buildShaders p =
     (let p = fold (\<lambda>i p. case vkFresh p of (h, p) \<Rightarrow>
                      (vkCall (CreateShaderModule h) p)\<lparr>shaderModules := shaderModules p @ [h]\<rparr>)
                [0..<nrShaders p] (p\<lparr>shaderModules := []\<rparr>)
      in p\<lparr>shaderStages := shaderModules p\<rparr>)"

definition teardownShaders :: "Pipeline_vulkan \<Rightarrow> Pipeline_vulkan" where
  "teardownShaders p =
     (let p = fold (\<lambda>shaderModule p. vkCall (DestroyShaderModule shaderModule) p)
                (shaderModules p) p;
          p = p\<lparr>shaderModules := []\<rparr>
      in p\<lparr>shaderStages := []\<rparr>)"

subsection \<open>Vertex buffers\<close>

definition createVertexBuffers ::
  "nat \<Rightarrow> nat \<Rightarrow> Pipeline_vulkan \<Rightarrow> handle list \<times> Pipeline_vulkan" where
  "createVertexBuffers nrBuffers bufferSize p =
     fold (\<lambda>i (buffers, p). case vkFresh p of (buffer, p) \<Rightarrow>
             (buffers @ [buffer], vkCall (CreateBuffer buffer bufferSize) p))
       [0..<nrBuffers] ([], p)"

text \<open>Modelled from the spec: \<open>Device_vulkan::allocateDeviceMemoryAndBind\<close> (the class
  \<open>Device_vulkan\<close> is missing). The vertex buffer set is sized one per swap-chain image;
  the function is taken to allocate one memory object for the buffers and to return one
  offset and one size per buffer, the buffers laid out back to back. No property below
  depends on the values of the offsets.\<close>

definition allocateDeviceMemoryAndBind ::
  "handle list \<Rightarrow> nat \<Rightarrow> Pipeline_vulkan \<Rightarrow> (handle \<times> nat list \<times> nat list) \<times> Pipeline_vulkan" where
  "allocateDeviceMemoryAndBind buffers bufferSize p =
     (case vkFresh p of (memory, p) \<Rightarrow>
        ((memory, map (\<lambda>i. i * bufferSize) [0..<length buffers],
          replicate (length buffers) bufferSize),
         vkCall (AllocateMemory memory buffers) p))"

definition buildVertexBuffers :: "nat \<Rightarrow> Pipeline_vulkan \<Rightarrow> error + Pipeline_vulkan" where
  "buildVertexBuffers nrFrameBuffers p =
     (let bufferSize = vertexStride p * maximumNumberOfVertices p in
      case createVertexBuffers nrFrameBuffers bufferSize p of (buffers, p) \<Rightarrow>
        let p = p\<lparr>vertexBuffers := buffers\<rparr> in
        case allocateDeviceMemoryAndBind (vertexBuffers p) bufferSize p of
          ((memory, offsets, sizes), p) \<Rightarrow>
            let p = p\<lparr>vertexBufferMemory := memory\<rparr>;
                p = p\<lparr>vertexBufferOffsets := offsets\<rparr>;
                p = p\<lparr>vertexBufferSizes := sizes\<rparr>
            in
            if vertexBufferOffsets p = [] \<or> vertexBufferSizes p = []
            then Inl (OutOfRange VertexBufferOffsets)
            else
              let p = p\<lparr>vertexBufferDataSize :=
                          last (vertexBufferOffsets p) + last (vertexBufferSizes p)\<rparr>;
                  p = vkCall (MapMemory (vertexBufferMemory p) (vertexBufferDataSize p)) p
              in Inr (p\<lparr>vertexBufferData := Some (vertexBufferMemory p)\<rparr>))"

definition teardownVertexBuffers :: "Pipeline_vulkan \<Rightarrow> Pipeline_vulkan" where
  "teardownVertexBuffers p =
     (let p = vkCall (UnmapMemory (vertexBufferMemory p)) p;
          p = p\<lparr>vertexBufferData := None\<rparr>;
          p = vkCall (FreeMemory (vertexBufferMemory p)) p;
          p = p\<lparr>vertexBufferMemory := 0\<rparr>;
          p = fold (\<lambda>buffer p. vkCall (DestroyBuffer buffer) p) (vertexBuffers p) p;
          p = p\<lparr>vertexBuffers := []\<rparr>;
          p = p\<lparr>vertexBufferOffsets := []\<rparr>
      in p\<lparr>vertexBufferSizes := []\<rparr>)"

subsection \<open>Command buffers\<close>

definition invalidateCommandBuffers :: "Pipeline_vulkan \<Rightarrow> Pipeline_vulkan" where
  "invalidateCommandBuffers p =
     fold (\<lambda>imageIndex p. p\<lparr>commandBuffersValid := (commandBuffersValid p)[imageIndex := False]\<rparr>)
       [0..<length (commandBuffersValid p)] p"

text \<open>
  \<open>allocateCommandBuffers\<close> returns as many command buffers as the allocate info asks
  for. The count goes through \<open>boost::numeric_cast<uint32_t>\<close>, which throws when it does
  not fit.
\<close>

definition uint32_max :: nat where
  "uint32_max = 4294967295"

definition buildCommandBuffers :: "nat \<Rightarrow> Pipeline_vulkan \<Rightarrow> error + Pipeline_vulkan" where
  "buildCommandBuffers nrFrameBuffers p =
     (if nrFrameBuffers > uint32_max then Inl BadNumericCast
      else
        let buffers = [nextHandle p..<nextHandle p + nrFrameBuffers];
            p = p\<lparr>nextHandle := nextHandle p + nrFrameBuffers\<rparr>;
            p = vkCall (AllocateCommandBuffers buffers) p;
            p = p\<lparr>commandBuffers := buffers\<rparr>;
            p = p\<lparr>commandBuffersValid := resize (commandBuffersValid p) nrFrameBuffers False\<rparr>
        in Inr (invalidateCommandBuffers p))"

definition teardownCommandBuffers :: "Pipeline_vulkan \<Rightarrow> Pipeline_vulkan" where
  "teardownCommandBuffers p =
     (let p = vkCall (FreeCommandBuffers (commandBuffers p)) p;
          p = p\<lparr>commandBuffers := []\<rparr>
      in p\<lparr>commandBuffersValid := []\<rparr>)"

subsection \<open>Semaphores\<close>

definition buildSemaphores :: "nat \<Rightarrow> Pipeline_vulkan \<Rightarrow> Pipeline_vulkan" where
  "buildSemaphores nrFrameBuffers p =
     (let p = p\<lparr>renderFinishedSemaphores :=
                  resize (renderFinishedSemaphores p) nrFrameBuffers 0\<rparr>
      in fold (\<lambda>i p. case vkFresh p of (semaphore, p) \<Rightarrow>
                 (vkCall (CreateSemaphore semaphore) p)
                   \<lparr>renderFinishedSemaphores := (renderFinishedSemaphores p)[i := semaphore]\<rparr>)
           [0..<nrFrameBuffers] p)"

definition teardownSemaphores :: "Pipeline_vulkan \<Rightarrow> Pipeline_vulkan" where
  "teardownSemaphores p =
     (let p = fold (\<lambda>i p. vkCall (DestroySemaphore (renderFinishedSemaphores p ! i)) p)
                [0..<length (renderFinishedSemaphores p)] p
      in p\<lparr>renderFinishedSemaphores := []\<rparr>)"

subsection \<open>The pipeline-state object\<close>

text \<open>
  \<open>buildPipeline\<close> fills the create-info members and creates the pipeline layout and the
  graphics pipeline. Of the create infos the model keeps what the properties below read:
  the render pass, the viewports and scissors made from the extent, and the shader stages
  the pipeline is created with (their count goes through \<open>boost::numeric_cast\<close>).
\<close>

definition buildPipeline ::
  "handle \<Rightarrow> Extent2D \<Rightarrow> Pipeline_vulkan \<Rightarrow> error + Pipeline_vulkan" where
  "buildPipeline renderPass' extent p =
     (let p = p\<lparr>renderPass := renderPass'\<rparr> in
      case vkFresh p of (layout, p) \<Rightarrow>
        let p = (vkCall (CreatePipelineLayout layout) p)\<lparr>pipelineLayout := layout\<rparr>;
            p = p\<lparr>viewports := [extent]\<rparr>;
            p = p\<lparr>scissors := [extent]\<rparr>
        in
        if length (shaderStages p) > uint32_max then Inl BadNumericCast
        else
          case vkFresh p of (pipeline, p) \<Rightarrow>
            Inr ((vkCall (CreateGraphicsPipeline pipeline (renderPass p) extent (shaderStages p)) p)
                   \<lparr>intrinsic := pipeline\<rparr>))"

definition teardownPipeline :: "Pipeline_vulkan \<Rightarrow> Pipeline_vulkan" where
  "teardownPipeline p =
     (let p = vkCall (DestroyPipeline (intrinsic p)) p
      in vkCall (DestroyPipelineLayout (pipelineLayout p)) p)"

subsection \<open>The public operations\<close>

definition buildForDeviceChange ::
  "handle \<Rightarrow> Extent2D \<Rightarrow> nat \<Rightarrow> Pipeline_vulkan \<Rightarrow> error + Pipeline_vulkan" where
  "buildForDeviceChange renderPass' extent nrFrameBuffers p =
     (let p = buildShaders p in
      andThen (buildVertexBuffers nrFrameBuffers p) (\<lambda>p.
      andThen (buildCommandBuffers nrFrameBuffers p) (\<lambda>p.
      let p = buildSemaphores nrFrameBuffers p in
      buildPipeline renderPass' extent p)))"

definition teardownForDeviceChange :: "Pipeline_vulkan \<Rightarrow> Pipeline_vulkan" where
  "teardownForDeviceChange p =
     (let p = teardownPipeline p;
          p = teardownSemaphores p;
          p = teardownCommandBuffers p;
          p = teardownVertexBuffers p
      in teardownShaders p)"

definition buildForSwapchainChange ::
  "handle \<Rightarrow> Extent2D \<Rightarrow> nat \<Rightarrow> Pipeline_vulkan \<Rightarrow> error + Pipeline_vulkan" where
  "buildForSwapchainChange renderPass' extent nrFrameBuffers p =
     andThen
       (if nrFrameBuffers \<noteq> length (commandBuffers p)
        then
          let p = teardownSemaphores p;
              p = teardownCommandBuffers p;
              p = teardownVertexBuffers p
          in
          andThen (buildVertexBuffers nrFrameBuffers p) (\<lambda>p.
          andThen (buildCommandBuffers nrFrameBuffers p) (\<lambda>p.
          Inr (buildSemaphores nrFrameBuffers p)))
        else Inr p)
       (\<lambda>p. let p = invalidateCommandBuffers p in buildPipeline renderPass' extent p)"

definition teardownForSwapchainChange :: "Pipeline_vulkan \<Rightarrow> Pipeline_vulkan" where
  "teardownForSwapchainChange p = teardownPipeline p"

text \<open>The commands \<open>validateCommandBuffer\<close> records into the command buffer of an image.
  \<open>drawInCommandBuffer\<close> is pure virtual; what the concrete pipeline draws is the one
  entry \<open>CmdDraw\<close>.\<close>

definition recordedCommands :: "Pipeline_vulkan \<Rightarrow> nat \<Rightarrow> VkCall list" where
  "recordedCommands p imageIndex =
     (let commandBuffer = commandBuffers p ! imageIndex;
          tmpVertexBuffers = [vertexBuffers p ! imageIndex];
          tmpOffsets = replicate (length tmpVertexBuffers) 0
      in [CmdReset commandBuffer,
          CmdBegin commandBuffer,
          CmdBeginRenderPass commandBuffer (renderPass p)
            (swapchainFramebuffers p ! imageIndex) (scissors p ! 0),
          CmdBindPipeline commandBuffer (intrinsic p),
          CmdBindVertexBuffers commandBuffer tmpVertexBuffers tmpOffsets,
          CmdDraw commandBuffer,
          CmdEndRenderPass commandBuffer,
          CmdEnd commandBuffer])"

definition validateCommandBuffer :: "nat \<Rightarrow> Pipeline_vulkan \<Rightarrow> error + Pipeline_vulkan" where
  "validateCommandBuffer imageIndex p =
     (if imageIndex \<ge> length (commandBuffersValid p) then Inl (OutOfRange CommandBuffersValid)
      else if commandBuffersValid p ! imageIndex then Inr p
      else if scissors p = [] then Inl (OutOfRange Scissors)
      else if imageIndex \<ge> length (commandBuffers p) then Inl (OutOfRange CommandBuffers)
      else if imageIndex \<ge> length (swapchainFramebuffers p)
        then Inl (OutOfRange SwapchainFramebuffers)
      else if imageIndex \<ge> length (vertexBuffers p) then Inl (OutOfRange VertexBuffers)
      else
        let p = vkCalls (recordedCommands p imageIndex) p
        in Inr (p\<lparr>commandBuffersValid := (commandBuffersValid p)[imageIndex := True]\<rparr>))"

definition render ::
  "nat \<Rightarrow> handle \<Rightarrow> Pipeline_vulkan \<Rightarrow> error + (handle \<times> Pipeline_vulkan)" where
  "render imageIndex inputSemaphore p =
     andThen (validateCommandBuffer imageIndex p) (\<lambda>p.
       if imageIndex \<ge> length (renderFinishedSemaphores p)
       then Inl (OutOfRange RenderFinishedSemaphores)
       else if imageIndex \<ge> length (commandBuffers p) then Inl (OutOfRange CommandBuffers)
       else
         let p = vkCall (QueueSubmit inputSemaphore (commandBuffers p ! imageIndex)
                           (renderFinishedSemaphores p ! imageIndex)) p
         in Inr (renderFinishedSemaphores p ! imageIndex, p))"

subsection \<open>Notions for stating the properties\<close>

text \<open>
  The three per-image containers \<open>render\<close> and \<open>validateCommandBuffer\<close> index without a
  check have the same length.
\<close>

definition perImageAligned :: "Pipeline_vulkan \<Rightarrow> bool" where
  "perImageAligned p =
     (length (commandBuffersValid p) = length (commandBuffers p) \<and>
      length (renderFinishedSemaphores p) = length (commandBuffers p))"

text \<open>
  A built pipeline: its per-image containers have one entry per swap-chain image, the
  pipeline-state object was built (one scissor rectangle), and the shader stages are few
  enough to be counted in a \<open>uint32_t\<close>.
\<close>

definition built :: "Pipeline_vulkan \<Rightarrow> bool" where
  "built p =
     (perImageAligned p \<and>
      length (vertexBuffers p) = length (commandBuffers p) \<and>
      length (swapchainFramebuffers p) = length (commandBuffers p) \<and>
      length (scissors p) = 1 \<and>
      length (shaderStages p) \<le> uint32_max)"

text \<open>How often the command buffers of the pipeline were recorded.\<close>

definition nrRecordings :: "Pipeline_vulkan \<Rightarrow> nat" where
  "nrRecordings p = length (filter (\<lambda>c. case c of CmdBegin _ \<Rightarrow> True | _ \<Rightarrow> False) (calls p))"

definition renderTwice ::
  "nat \<Rightarrow> handle \<Rightarrow> handle \<Rightarrow> Pipeline_vulkan \<Rightarrow> error + (handle \<times> Pipeline_vulkan)" where
  "renderTwice imageIndex inputSemaphore1 inputSemaphore2 p =
     andThen (render imageIndex inputSemaphore1 p) (\<lambda>(signalSemaphore, p).
       render imageIndex inputSemaphore2 p)"

text \<open>The calls that tear down, and that rebuild, the per-image resources.\<close>

definition teardownResourceCalls :: "Pipeline_vulkan \<Rightarrow> VkCall list" where
  "teardownResourceCalls p =
     map DestroySemaphore (renderFinishedSemaphores p) @
     [FreeCommandBuffers (commandBuffers p),
      UnmapMemory (vertexBufferMemory p),
      FreeMemory (vertexBufferMemory p)] @
     map DestroyBuffer (vertexBuffers p)"

definition buildResourceCalls :: "Pipeline_vulkan \<Rightarrow> nat \<Rightarrow> VkCall list" where
  "buildResourceCalls p n =
     (let h = nextHandle p; bufferSize = vertexStride p * maximumNumberOfVertices p in
      map (\<lambda>b. CreateBuffer b bufferSize) [h..<h + n] @
      [AllocateMemory (h + n) [h..<h + n],
       MapMemory (h + n) (n * bufferSize),
       AllocateCommandBuffers [h + n + 1..<h + n + 1 + n]] @
      map CreateSemaphore [h + n + 1 + n..<h + n + 1 + n + n])"

section \<open>Example pipelines\<close>

text \<open>A pipeline object before its first build, for a window with three swap-chain
  images, and the same pipeline built and rendered from.\<close>

definition unbuiltPipeline :: Pipeline_vulkan where
  "unbuiltPipeline =
     \<lparr>nextHandle = 100, calls = [], swapchainFramebuffers = [11, 12, 13],
      nrShaders = 2, vertexStride = 16, maximumNumberOfVertices = 6,
      shaderModules = [], shaderStages = [], vertexBuffers = [],
      vertexBufferMemory = 0, vertexBufferOffsets = [], vertexBufferSizes = [],
      vertexBufferDataSize = 0, vertexBufferData = None,
      commandBuffers = [], commandBuffersValid = [], renderFinishedSemaphores = [],
      renderPass = 0, pipelineLayout = 0, viewports = [], scissors = [], intrinsic = 0\<rparr>"

definition examplePipeline :: Pipeline_vulkan where
  "examplePipeline =
     (case buildForDeviceChange 7 \<lparr>width = 800, height = 600\<rparr> 3 unbuiltPipeline of
        Inr p \<Rightarrow> p
      | Inl e \<Rightarrow> unbuiltPipeline)"

definition renderedPipeline :: Pipeline_vulkan where
  "renderedPipeline =
     (case render 1 50 examplePipeline of
        Inr (signalSemaphore, p) \<Rightarrow> p
      | Inl e \<Rightarrow> examplePipeline)"

text \<open>
  The rendered pipeline after its window was resized and its swap chain rebuilt with two
  images: the window holds two new frame buffers, the pipeline still the resources of
  three.
\<close>

definition resizedPipeline :: Pipeline_vulkan where
  "resizedPipeline = renderedPipeline\<lparr>swapchainFramebuffers := [21, 22]\<rparr>"

section \<open>Properties of the Device Selector\<close>

subsection \<open>Bounds of the partial scores\<close>

lemma surfaceFormatScore_le: "surfaceFormatScore f = Some s \<Longrightarrow> s \<le> 110"
  by (cases "colorSpace f"; cases "format f") (auto simp: surfaceFormatScore_def)

lemma presentModeScore_le: "presentModeScore m = Some s \<Longrightarrow> s \<le> 10"
  by (cases m) auto

lemma surfaceFormatLoop_le:
  "b \<le> 110 \<Longrightarrow> fst (surfaceFormatLoop fs (b, f0)) \<le> 110"
  by (induction fs arbitrary: b f0) (auto split: option.splits dest: surfaceFormatScore_le)

lemma presentModeLoop_le:
  "b \<le> 10 \<Longrightarrow> fst (presentModeLoop ms (b, m0)) \<le> 10"
  by (induction ms arbitrary: b m0) (auto split: option.splits dest: presentModeScore_le)

lemma deviceTypeScore_range: "1 \<le> deviceTypeScore t \<and> deviceTypeScore t \<le> 4"
  by (cases t) auto

lemma bestFormatScore_le: "bestFormatScore d \<le> 110"
  unfolding bestFormatScore_def by (rule surfaceFormatLoop_le) simp

lemma bestModeScore_le: "bestModeScore d \<le> 10"
  unfolding bestModeScore_def by (rule presentModeLoop_le) simp

text \<open>The three additions of \<open>Device::score\<close> never wrap, so neither overflow guard
  fires and the conversion to \<open>int\<close> keeps the value.\<close>

lemma score_sum:
  fixes a b c :: "32 word"
  assumes "a \<le> 110" "b \<le> 10" "1 \<le> c" "c \<le> 4"
  shows "sint (0 + a + b + c) = uint a + uint b + uint c"
    and "\<not> (0 + a < a)"
    and "\<not> (0 + a + b < b)"
proof -
  have ua: "uint a \<le> 110" and ub: "uint b \<le> 10" and uc: "1 \<le> uint c" "uint c \<le> 4"
    using assms by (simp_all add: word_le_def)
  have a0: "0 \<le> uint a" and b0: "0 \<le> uint b" by simp_all
  have ab: "uint (a + b) = uint a + uint b"
    using ua ub by (simp add: uint_add_lem [THEN iffD1])
  have abc: "uint (a + b + c) = uint a + uint b + uint c"
    using ua ub uc ab by (simp add: uint_add_lem [THEN iffD1])
  have u1: "uint (a + b + c) < 2 ^ 31"
    using ua ub uc a0 b0 unfolding abc by simp
  have "sint (a + b + c) = uint (a + b + c)"
  proof -
    have "- (2 ^ 31) \<le> uint (a + b + c)"
      by (rule order_trans [of _ 0]) simp_all
    then show ?thesis
      unfolding sint_uint using u1 by (simp add: signed_take_bit_int_eq_self)
  qed
  then show "sint (0 + a + b + c) = uint a + uint b + uint c" using abc by simp
  show "\<not> (0 + a < a)" by simp
  show "\<not> (0 + a + b < b)" using ab a0 by (simp add: word_less_def)
qed

lemma Device_score_fst:
  "fst (Device_score srt d) =
     (if \<not> meetsRequirements (physicalIntrinsic d) then - 1
      else if \<not> handlesGraphicsAndCompute (deviceCapabilities srt (physicalIntrinsic d)) then - 1
      else if \<not> handlesPresent (deviceCapabilities srt (physicalIntrinsic d)) then 0
      else qualityScore d)"
proof -
  obtain a f where sf:
    "surfaceFormatLoop (surfaceFormatsKHR (physicalIntrinsic d)) (0, bestSurfaceFormat d) = (a, f)"
    by (cases "surfaceFormatLoop (surfaceFormatsKHR (physicalIntrinsic d)) (0, bestSurfaceFormat d)")
  obtain b m where pm:
    "presentModeLoop (surfacePresentModesKHR (physicalIntrinsic d)) (0, bestSurfacePresentMode d)
       = (b, m)"
    by (cases "presentModeLoop (surfacePresentModesKHR (physicalIntrinsic d))
                 (0, bestSurfacePresentMode d)")
  have a: "a \<le> 110" using bestFormatScore_le [of d] sf by (simp add: bestFormatScore_def)
  have b: "b \<le> 10" using bestModeScore_le [of d] pm by (simp add: bestModeScore_def)
  note s = score_sum [OF a b deviceTypeScore_range [THEN conjunct1]
      deviceTypeScore_range [THEN conjunct2]]
  show ?thesis
    using s
    by (simp add: Device_score_def Let_def meetsRequirements_def deviceCapabilities_def
        qualityScore_def bestFormatScore_def bestModeScore_def sf pm)
qed

lemma qualityScore_pos: "0 < qualityScore d"
proof -
  have "1 \<le> uint (deviceTypeScore (deviceType (physicalIntrinsic d)))"
    using deviceTypeScore_range [of "deviceType (physicalIntrinsic d)"]
    by (simp add: word_le_def)
  moreover have "0 \<le> uint (bestFormatScore d)" "0 \<le> uint (bestModeScore d)" by simp_all
  ultimately show ?thesis unfolding qualityScore_def by linarith
qed

lemma Device_score_ge: "- 1 \<le> fst (Device_score srt d)"
  using qualityScore_pos [of d] by (simp add: Device_score_fst)

subsection \<open>The sentinels of \<open>Device::score\<close>\<close>

text \<open>
  C1. \<open>Device::score\<close> returns the rejection sentinel \<open>-1\<close> when a required feature,
  limit or extension is unmet or when the negotiated queue assignment does not cover both
  graphics and compute; it returns \<open>0\<close> when graphics and compute are covered but no
  family of the assignment can present; in every other case the score is positive.
\<close>

theorem Device_score_sentinels:
  "(\<not> meetsRequirements (physicalIntrinsic d) \<or>
    \<not> handlesGraphicsAndCompute (deviceCapabilities srt (physicalIntrinsic d))
      \<longrightarrow> fst (Device_score srt d) = - 1) \<and>
   (meetsRequirements (physicalIntrinsic d) \<and>
    handlesGraphicsAndCompute (deviceCapabilities srt (physicalIntrinsic d)) \<and>
    \<not> handlesPresent (deviceCapabilities srt (physicalIntrinsic d))
      \<longrightarrow> fst (Device_score srt d) = 0) \<and>
   (meetsRequirements (physicalIntrinsic d) \<and>
    handlesGraphicsAndCompute (deviceCapabilities srt (physicalIntrinsic d)) \<and>
    handlesPresent (deviceCapabilities srt (physicalIntrinsic d))
      \<longrightarrow> 0 < fst (Device_score srt d))"
  using qualityScore_pos [of d] by (simp add: Device_score_fst)

theorem Device_score_sentinels_witness:
  "\<not> meetsRequirements (physicalIntrinsic unfitGpu) \<and>
   fst (Device_score stableSort unfitGpu) = - 1 \<and>
   meetsRequirements (physicalIntrinsic headlessGpu) \<and>
   handlesGraphicsAndCompute (deviceCapabilities stableSort (physicalIntrinsic headlessGpu)) \<and>
   \<not> handlesPresent (deviceCapabilities stableSort (physicalIntrinsic headlessGpu)) \<and>
   fst (Device_score stableSort headlessGpu) = 0 \<and>
   meetsRequirements (physicalIntrinsic discreteGpu) \<and>
   handlesGraphicsAndCompute (deviceCapabilities stableSort (physicalIntrinsic discreteGpu)) \<and>
   handlesPresent (deviceCapabilities stableSort (physicalIntrinsic discreteGpu)) \<and>
   0 < fst (Device_score stableSort discreteGpu)"
proof -
  have u: "\<not> meetsRequirements (physicalIntrinsic unfitGpu)" by code_simp
  have h: "meetsRequirements (physicalIntrinsic headlessGpu)"
    "handlesGraphicsAndCompute (deviceCapabilities stableSort (physicalIntrinsic headlessGpu))"
    "\<not> handlesPresent (deviceCapabilities stableSort (physicalIntrinsic headlessGpu))"
    by code_simp+
  have g: "meetsRequirements (physicalIntrinsic discreteGpu)"
    "handlesGraphicsAndCompute (deviceCapabilities stableSort (physicalIntrinsic discreteGpu))"
    "handlesPresent (deviceCapabilities stableSort (physicalIntrinsic discreteGpu))"
    by code_simp+
  show ?thesis
    using u h g Device_score_sentinels [of unfitGpu stableSort]
      Device_score_sentinels [of headlessGpu stableSort]
      Device_score_sentinels [of discreteGpu stableSort]
    by blast
qed

subsection \<open>The present mode \<open>Device::score\<close> selects\<close>

lemma presentModeLoop_inv:
  "modeConsistent (b, m) \<Longrightarrow> presentModeLoop ms (b, m) = (b', m') \<Longrightarrow>
   modeConsistent (b', m') \<and> b \<le> b' \<and>
   (\<forall>x\<in>set ms. \<forall>s. presentModeScore x = Some s \<longrightarrow> s \<le> b') \<and>
   ((b' = b \<and> m' = m) \<or> m' \<in> set ms)"
proof (induction ms arbitrary: b m)
  case Nil
  then show ?case by simp
next
  case (Cons x ms)
  show ?case
  proof (cases "presentModeScore x")
    case None
    with Cons show ?thesis by auto
  next
    case (Some s)
    show ?thesis
    proof (cases "s > b")
      case True
      have c: "modeConsistent (s, x)" using Some by (simp add: modeConsistent_def)
      have l: "presentModeLoop ms (s, x) = (b', m')" using Cons.prems(2) Some True by simp
      from Cons.IH [OF c l] True Some show ?thesis by auto
    next
      case False
      have l: "presentModeLoop ms (b, m) = (b', m')" using Cons.prems(2) Some False by simp
      from Cons.IH [OF Cons.prems(1) l] False Some show ?thesis by auto
    qed
  qed
qed

lemma Device_score_snd:
  assumes "0 < fst (Device_score srt d)"
  shows "snd (Device_score srt d) =
     d\<lparr>queueFamilyIndicesAndCapabilities := findBestQueueFamilyIndices srt (physicalIntrinsic d),
       bestSurfaceFormat :=
         snd (surfaceFormatLoop (surfaceFormatsKHR (physicalIntrinsic d)) (0, bestSurfaceFormat d)),
       bestSurfacePresentMode :=
         snd (presentModeLoop (surfacePresentModesKHR (physicalIntrinsic d))
                (0, bestSurfacePresentMode d))\<rparr>"
proof -
  have ok: "meetsRequirements (physicalIntrinsic d)"
    "handlesGraphicsAndCompute (deviceCapabilities srt (physicalIntrinsic d))"
    "handlesPresent (deviceCapabilities srt (physicalIntrinsic d))"
    using assms by (auto simp: Device_score_fst split: if_splits)
  obtain a f where sf:
    "surfaceFormatLoop (surfaceFormatsKHR (physicalIntrinsic d)) (0, bestSurfaceFormat d) = (a, f)"
    by (cases "surfaceFormatLoop (surfaceFormatsKHR (physicalIntrinsic d)) (0, bestSurfaceFormat d)")
  obtain b m where pm:
    "presentModeLoop (surfacePresentModesKHR (physicalIntrinsic d)) (0, bestSurfacePresentMode d)
       = (b, m)"
    by (cases "presentModeLoop (surfacePresentModesKHR (physicalIntrinsic d))
                 (0, bestSurfacePresentMode d)")
  have a: "a \<le> 110" using bestFormatScore_le [of d] sf by (simp add: bestFormatScore_def)
  have b: "b \<le> 10" using bestModeScore_le [of d] pm by (simp add: bestModeScore_def)
  note s = score_sum [OF a b deviceTypeScore_range [THEN conjunct1]
      deviceTypeScore_range [THEN conjunct2]]
  show ?thesis
    using s ok
    by (simp add: Device_score_def Let_def meetsRequirements_def deviceCapabilities_def sf pm)
qed

lemma presentModeScore_inj:
  "presentModeScore m = Some s \<Longrightarrow> presentModeScore m' = Some s \<Longrightarrow> m = m'"
  by (cases m; cases m') auto

lemma presentModeLoop_best:
  assumes "presentModeLoop ms (0, m0) = (b', m')"
    and "x \<in> set ms" and "presentModeScore x = Some s"
    and "\<forall>y\<in>set ms. \<forall>t. presentModeScore y = Some t \<longrightarrow> t \<le> s"
  shows "m' = x"
proof -
  have c: "modeConsistent (0, m0)" by (simp add: modeConsistent_def)
  note inv = presentModeLoop_inv [OF c assms(1)]
  have ge: "s \<le> b'" using inv assms(2,3) by blast
  have s0: "s \<noteq> 0" using assms(3) by (cases x) auto
  then have b0: "b' \<noteq> 0" using ge by auto
  then have sc: "presentModeScore m' = Some b'" and mem: "m' \<in> set ms"
    using inv by (auto simp: modeConsistent_def)
  have "b' \<le> s" using assms(4) mem sc by blast
  then have "b' = s" using ge by simp
  then show ?thesis using sc assms(3) presentModeScore_inj by blast
qed

lemma presentModeScore_cases:
  "presentModeScore y = Some t \<Longrightarrow>
     (y = eMailbox \<and> t = 10) \<or> (y = eFifo \<and> t = 3) \<or> (y = eFifoRelaxed \<and> t = 2) \<or>
     (y = eImmediate \<and> t = 1)"
  by (cases y) auto

text \<open>
  C3 (as amended). For a device that passes every check, \<open>bestSurfacePresentMode\<close> is
  the supported mode of highest rank in the order mailbox, fifo, fifo-relaxed, immediate:
  the switch scores them 10, 3, 2 and 1.
\<close>

theorem presentMode_ranking:
  assumes "0 < fst (Device_score srt d)"
  shows
    "(eMailbox \<in> set (surfacePresentModesKHR (physicalIntrinsic d)) \<longrightarrow>
        bestSurfacePresentMode (snd (Device_score srt d)) = eMailbox) \<and>
     (eMailbox \<notin> set (surfacePresentModesKHR (physicalIntrinsic d)) \<and>
      eFifo \<in> set (surfacePresentModesKHR (physicalIntrinsic d)) \<longrightarrow>
        bestSurfacePresentMode (snd (Device_score srt d)) = eFifo) \<and>
     (eMailbox \<notin> set (surfacePresentModesKHR (physicalIntrinsic d)) \<and>
      eFifo \<notin> set (surfacePresentModesKHR (physicalIntrinsic d)) \<and>
      eFifoRelaxed \<in> set (surfacePresentModesKHR (physicalIntrinsic d)) \<longrightarrow>
        bestSurfacePresentMode (snd (Device_score srt d)) = eFifoRelaxed) \<and>
     (eMailbox \<notin> set (surfacePresentModesKHR (physicalIntrinsic d)) \<and>
      eFifo \<notin> set (surfacePresentModesKHR (physicalIntrinsic d)) \<and>
      eFifoRelaxed \<notin> set (surfacePresentModesKHR (physicalIntrinsic d)) \<and>
      eImmediate \<in> set (surfacePresentModesKHR (physicalIntrinsic d)) \<longrightarrow>
        bestSurfacePresentMode (snd (Device_score srt d)) = eImmediate)"
proof -
  let ?ms = "surfacePresentModesKHR (physicalIntrinsic d)"
  obtain b m where pm: "presentModeLoop ?ms (0, bestSurfacePresentMode d) = (b, m)"
    by (cases "presentModeLoop ?ms (0, bestSurfacePresentMode d)")
  have best: "bestSurfacePresentMode (snd (Device_score srt d)) = m"
    using Device_score_snd [OF assms] pm by simp
  have le: "\<And>y t. presentModeScore y = Some t \<Longrightarrow> t \<le> 10"
    by (rule presentModeScore_le)
  have 1: "eMailbox \<in> set ?ms \<Longrightarrow> m = eMailbox"
    by (rule presentModeLoop_best [OF pm, of eMailbox 10]) (auto dest: le)
  have 2: "eMailbox \<notin> set ?ms \<Longrightarrow> eFifo \<in> set ?ms \<Longrightarrow> m = eFifo"
  proof (rule presentModeLoop_best [OF pm, of eFifo 3])
    assume a: "eMailbox \<notin> set ?ms"
    show "\<forall>y\<in>set ?ms. \<forall>t. presentModeScore y = Some t \<longrightarrow> t \<le> 3"
    proof (intro ballI allI impI)
      fix y t assume "y \<in> set ?ms" "presentModeScore y = Some t"
      then show "t \<le> 3" using a presentModeScore_cases [of y t] by auto
    qed
  qed auto
  have 3: "eMailbox \<notin> set ?ms \<Longrightarrow> eFifo \<notin> set ?ms \<Longrightarrow> eFifoRelaxed \<in> set ?ms
      \<Longrightarrow> m = eFifoRelaxed"
  proof (rule presentModeLoop_best [OF pm, of eFifoRelaxed 2])
    assume a: "eMailbox \<notin> set ?ms" "eFifo \<notin> set ?ms"
    show "\<forall>y\<in>set ?ms. \<forall>t. presentModeScore y = Some t \<longrightarrow> t \<le> 2"
    proof (intro ballI allI impI)
      fix y t assume "y \<in> set ?ms" "presentModeScore y = Some t"
      then show "t \<le> 2" using a presentModeScore_cases [of y t] by auto
    qed
  qed auto
  have 4: "eMailbox \<notin> set ?ms \<Longrightarrow> eFifo \<notin> set ?ms \<Longrightarrow> eFifoRelaxed \<notin> set ?ms
      \<Longrightarrow> eImmediate \<in> set ?ms \<Longrightarrow> m = eImmediate"
  proof (rule presentModeLoop_best [OF pm, of eImmediate 1])
    assume a: "eMailbox \<notin> set ?ms" "eFifo \<notin> set ?ms" "eFifoRelaxed \<notin> set ?ms"
    show "\<forall>y\<in>set ?ms. \<forall>t. presentModeScore y = Some t \<longrightarrow> t \<le> 1"
    proof (intro ballI allI impI)
      fix y t assume "y \<in> set ?ms" "presentModeScore y = Some t"
      then show "t \<le> 1" using a presentModeScore_cases [of y t] by auto
    qed
  qed auto
  show ?thesis unfolding best using 1 2 3 4 by blast
qed

text \<open>
  The ranking C3 states puts fifo-relaxed above fifo. On the integrated GPU, which supports
  both (and no mailbox), the selector chooses fifo.
\<close>

theorem presentMode_ranking_counterexample:
  "eFifoRelaxed \<in> set (surfacePresentModesKHR (physicalIntrinsic integratedGpu)) \<and>
   eFifo \<in> set (surfacePresentModesKHR (physicalIntrinsic integratedGpu)) \<and>
   0 < fst (Device_score stableSort integratedGpu) \<and>
   bestSurfacePresentMode (snd (Device_score stableSort integratedGpu)) = eFifo"
  by code_simp

theorem presentMode_ranking_witness:
  "0 < fst (Device_score stableSort discreteGpu) \<and>
   eMailbox \<in> set (surfacePresentModesKHR (physicalIntrinsic discreteGpu)) \<and>
   bestSurfacePresentMode (snd (Device_score stableSort discreteGpu)) = eMailbox \<and>
   0 < fst (Device_score stableSort integratedGpu) \<and>
   eMailbox \<notin> set (surfacePresentModesKHR (physicalIntrinsic integratedGpu)) \<and>
   eFifo \<in> set (surfacePresentModesKHR (physicalIntrinsic integratedGpu)) \<and>
   bestSurfacePresentMode (snd (Device_score stableSort integratedGpu)) = eFifo \<and>
   0 < fst (Device_score stableSort (withPresentModes integratedGpu [eImmediate, eFifoRelaxed])) \<and>
   bestSurfacePresentMode
     (snd (Device_score stableSort (withPresentModes integratedGpu [eImmediate, eFifoRelaxed])))
     = eFifoRelaxed \<and>
   0 < fst (Device_score stableSort (withPresentModes discreteGpu [eImmediate])) \<and>
   bestSurfacePresentMode
     (snd (Device_score stableSort (withPresentModes discreteGpu [eImmediate]))) = eImmediate"
proof -
  have p: "0 < fst (Device_score stableSort discreteGpu)"
    "0 < fst (Device_score stableSort integratedGpu)"
    "0 < fst (Device_score stableSort (withPresentModes integratedGpu [eImmediate, eFifoRelaxed]))"
    "0 < fst (Device_score stableSort (withPresentModes discreteGpu [eImmediate]))"
    by code_simp+
  have m: "eMailbox \<in> set (surfacePresentModesKHR (physicalIntrinsic discreteGpu))"
    "eMailbox \<notin> set (surfacePresentModesKHR (physicalIntrinsic integratedGpu))"
    "eFifo \<in> set (surfacePresentModesKHR (physicalIntrinsic integratedGpu))"
    "surfacePresentModesKHR
       (physicalIntrinsic (withPresentModes integratedGpu [eImmediate, eFifoRelaxed]))
       = [eImmediate, eFifoRelaxed]"
    "surfacePresentModesKHR (physicalIntrinsic (withPresentModes discreteGpu [eImmediate]))
       = [eImmediate]"
    by (simp_all add: discreteGpu_def integratedGpu_def withPresentModes_def)
  show ?thesis
    using p m presentMode_ranking [OF p(1)] presentMode_ranking [OF p(2)]
      presentMode_ranking [OF p(3)] presentMode_ranking [OF p(4)]
    by simp
qed

subsection \<open>Monotonicity of the score\<close>

lemma presentModeLoop_append:
  "presentModeLoop (xs @ ys) st = presentModeLoop ys (presentModeLoop xs st)"
  by (induction xs st rule: presentModeLoop.induct) (auto split: option.splits)

lemma surfaceFormatLoop_append:
  "surfaceFormatLoop (xs @ ys) st = surfaceFormatLoop ys (surfaceFormatLoop xs st)"
  by (induction xs st rule: surfaceFormatLoop.induct) (auto split: option.splits)

lemma presentModeLoop_step_ge: "fst st \<le> fst (presentModeLoop [m] st)"
  by (cases st) (auto split: option.splits)

lemma surfaceFormatLoop_step_ge: "fst st \<le> fst (surfaceFormatLoop [f] st)"
  by (cases st) (auto split: option.splits)

lemma presentModeLoop_mono:
  "fst st1 \<le> fst st2 \<Longrightarrow> fst (presentModeLoop ms st1) \<le> fst (presentModeLoop ms st2)"
proof (induction ms arbitrary: st1 st2)
  case Nil
  then show ?case by simp
next
  case (Cons m ms)
  obtain b1 m1 b2 m2 where st: "st1 = (b1, m1)" "st2 = (b2, m2)"
    by (cases st1; cases st2) auto
  have "fst (presentModeLoop [m] st1) \<le> fst (presentModeLoop [m] st2)"
    using Cons.prems unfolding st by (auto split: option.splits)
  from Cons.IH [OF this] show ?case
    using presentModeLoop_append [of "[m]" ms] by simp
qed

lemma surfaceFormatLoop_mono:
  "fst st1 \<le> fst st2 \<Longrightarrow> fst (surfaceFormatLoop fs st1) \<le> fst (surfaceFormatLoop fs st2)"
proof (induction fs arbitrary: st1 st2)
  case Nil
  then show ?case by simp
next
  case (Cons f fs)
  obtain b1 f1 b2 f2 where st: "st1 = (b1, f1)" "st2 = (b2, f2)"
    by (cases st1; cases st2) auto
  have "fst (surfaceFormatLoop [f] st1) \<le> fst (surfaceFormatLoop [f] st2)"
    using Cons.prems unfolding st by (auto split: option.splits)
  from Cons.IH [OF this] show ?case
    using surfaceFormatLoop_append [of "[f]" fs] by simp
qed

lemma queueFamilieScoresFrom_cong:
  "surfaceSupportKHR pd' = surfaceSupportKHR pd \<Longrightarrow>
   queueFamilieScoresFrom pd' i xs = queueFamilieScoresFrom pd i xs"
  by (induction xs arbitrary: i) simp_all

lemma deviceCapabilities_cong:
  assumes "surfaceSupportKHR pd' = surfaceSupportKHR pd"
    and "queueFamilyProperties pd' = queueFamilyProperties pd"
  shows "deviceCapabilities srt pd' = deviceCapabilities srt pd"
proof -
  have "queueFamilieScores pd' = queueFamilieScores pd"
    unfolding queueFamilieScores_def assms(2)
    by (rule queueFamilieScoresFrom_cong [OF assms(1)])
  then show ?thesis
    by (simp add: deviceCapabilities_def findBestQueueFamilyIndices_def)
qed

lemma bestModeScore_extend:
  "bestModeScore d \<le>
   bestModeScore
     (withPresentModes d (insertAt k m (surfacePresentModesKHR (physicalIntrinsic d))))"
proof -
  let ?ms = "surfacePresentModesKHR (physicalIntrinsic d)"
  let ?st = "presentModeLoop (take k ?ms) (0, bestSurfacePresentMode d)"
  have "fst (presentModeLoop (drop k ?ms) ?st)
      \<le> fst (presentModeLoop (drop k ?ms) (presentModeLoop [m] ?st))"
    by (rule presentModeLoop_mono) (rule presentModeLoop_step_ge)
  moreover have "presentModeLoop ?ms (0, bestSurfacePresentMode d)
      = presentModeLoop (drop k ?ms) ?st"
    by (simp flip: presentModeLoop_append)
  moreover have "presentModeLoop (take k ?ms @ m # drop k ?ms) (0, bestSurfacePresentMode d)
      = presentModeLoop (drop k ?ms) (presentModeLoop [m] ?st)"
    using presentModeLoop_append [of "take k ?ms" "[m] @ drop k ?ms"]
      presentModeLoop_append [of "[m]" "drop k ?ms"]
    by simp
  ultimately show ?thesis
    by (simp add: bestModeScore_def withPresentModes_def insertAt_def)
qed

lemma bestFormatScore_extend:
  "bestFormatScore d \<le>
   bestFormatScore
     (withSurfaceFormats d (insertAt k f (surfaceFormatsKHR (physicalIntrinsic d))))"
proof -
  let ?fs = "surfaceFormatsKHR (physicalIntrinsic d)"
  let ?st = "surfaceFormatLoop (take k ?fs) (0, bestSurfaceFormat d)"
  have "fst (surfaceFormatLoop (drop k ?fs) ?st)
      \<le> fst (surfaceFormatLoop (drop k ?fs) (surfaceFormatLoop [f] ?st))"
    by (rule surfaceFormatLoop_mono) (rule surfaceFormatLoop_step_ge)
  moreover have "surfaceFormatLoop ?fs (0, bestSurfaceFormat d)
      = surfaceFormatLoop (drop k ?fs) ?st"
    by (simp flip: surfaceFormatLoop_append)
  moreover have "surfaceFormatLoop (take k ?fs @ f # drop k ?fs) (0, bestSurfaceFormat d)
      = surfaceFormatLoop (drop k ?fs) (surfaceFormatLoop [f] ?st)"
    using surfaceFormatLoop_append [of "take k ?fs" "[f] @ drop k ?fs"]
      surfaceFormatLoop_append [of "[f]" "drop k ?fs"]
    by simp
  ultimately show ?thesis
    by (simp add: bestFormatScore_def withSurfaceFormats_def insertAt_def)
qed

lemma Device_score_extend_mode:
  "fst (Device_score srt d) \<le>
   fst (Device_score srt
          (withPresentModes d (insertAt k m (surfacePresentModesKHR (physicalIntrinsic d)))))"
proof -
  let ?d' = "withPresentModes d (insertAt k m (surfacePresentModesKHR (physicalIntrinsic d)))"
  have c: "deviceCapabilities srt (physicalIntrinsic ?d')
      = deviceCapabilities srt (physicalIntrinsic d)"
    by (rule deviceCapabilities_cong) (simp_all add: withPresentModes_def)
  have r: "meetsRequirements (physicalIntrinsic ?d') = meetsRequirements (physicalIntrinsic d)"
    by (simp add: meetsRequirements_def withPresentModes_def)
  have f: "bestFormatScore ?d' = bestFormatScore d"
    "deviceType (physicalIntrinsic ?d') = deviceType (physicalIntrinsic d)"
    by (simp_all add: bestFormatScore_def withPresentModes_def)
  have "uint (bestModeScore d) \<le> uint (bestModeScore ?d')"
    using bestModeScore_extend [of d k m] by (simp add: word_le_def)
  then have q: "qualityScore d \<le> qualityScore ?d'"
    by (simp add: qualityScore_def f)
  show ?thesis
    using q qualityScore_pos [of ?d'] by (simp add: Device_score_fst c r)
qed

lemma Device_score_extend_format:
  "fst (Device_score srt d) \<le>
   fst (Device_score srt
          (withSurfaceFormats d (insertAt k f (surfaceFormatsKHR (physicalIntrinsic d)))))"
proof -
  let ?d' = "withSurfaceFormats d (insertAt k f (surfaceFormatsKHR (physicalIntrinsic d)))"
  have c: "deviceCapabilities srt (physicalIntrinsic ?d')
      = deviceCapabilities srt (physicalIntrinsic d)"
    by (rule deviceCapabilities_cong) (simp_all add: withSurfaceFormats_def)
  have r: "meetsRequirements (physicalIntrinsic ?d') = meetsRequirements (physicalIntrinsic d)"
    by (simp add: meetsRequirements_def withSurfaceFormats_def)
  have m: "bestModeScore ?d' = bestModeScore d"
    "deviceType (physicalIntrinsic ?d') = deviceType (physicalIntrinsic d)"
    by (simp_all add: bestModeScore_def withSurfaceFormats_def)
  have "uint (bestFormatScore d) \<le> uint (bestFormatScore ?d')"
    using bestFormatScore_extend [of d k f] by (simp add: word_le_def)
  then have q: "qualityScore d \<le> qualityScore ?d'"
    by (simp add: qualityScore_def m)
  show ?thesis
    using q qualityScore_pos [of ?d'] by (simp add: Device_score_fst c r)
qed

text \<open>
  C9. For a candidate with a positive score, adding to its supported present modes, or to
  its supported surface formats, an entry that scores at least as high as the current best
  does not decrease the total score, wherever in the list the entry is added. (The two
  lemmas above show that the conditions on the candidate and on the entry are not needed.)
\<close>

theorem Device_score_monotonic:
  assumes "0 < fst (Device_score srt d)"
  shows
    "(\<forall>k m s. presentModeScore m = Some s \<and> bestModeScore d \<le> s \<longrightarrow>
        fst (Device_score srt d) \<le>
        fst (Device_score srt
               (withPresentModes d
                  (insertAt k m (surfacePresentModesKHR (physicalIntrinsic d)))))) \<and>
     (\<forall>k f s. surfaceFormatScore f = Some s \<and> bestFormatScore d \<le> s \<longrightarrow>
        fst (Device_score srt d) \<le>
        fst (Device_score srt
               (withSurfaceFormats d
                  (insertAt k f (surfaceFormatsKHR (physicalIntrinsic d))))))"
  using Device_score_extend_mode Device_score_extend_format by blast

theorem Device_score_monotonic_witness:
  "0 < fst (Device_score stableSort integratedGpu) \<and>
   presentModeScore eMailbox = Some 10 \<and> bestModeScore integratedGpu \<le> 10 \<and>
   fst (Device_score stableSort integratedGpu) \<le>
   fst (Device_score stableSort
          (withPresentModes integratedGpu
             (insertAt 2 eMailbox (surfacePresentModesKHR (physicalIntrinsic integratedGpu))))) \<and>
   surfaceFormatScore \<lparr>format = eR16G16B16A16Sfloat, colorSpace = eExtendedSrgbNonlinearEXT\<rparr>
     = Some 110 \<and>
   bestFormatScore integratedGpu \<le> 110 \<and>
   fst (Device_score stableSort integratedGpu) \<le>
   fst (Device_score stableSort
          (withSurfaceFormats integratedGpu
             (insertAt 1 \<lparr>format = eR16G16B16A16Sfloat, colorSpace = eExtendedSrgbNonlinearEXT\<rparr>
                (surfaceFormatsKHR (physicalIntrinsic integratedGpu)))))"
proof -
  have p: "0 < fst (Device_score stableSort integratedGpu)" by code_simp
  have m: "presentModeScore eMailbox = Some 10" "bestModeScore integratedGpu \<le> 10"
    by code_simp+
  have f: "surfaceFormatScore
      \<lparr>format = eR16G16B16A16Sfloat, colorSpace = eExtendedSrgbNonlinearEXT\<rparr> = Some 110"
    "bestFormatScore integratedGpu \<le> 110"
    by code_simp+
  note t = Device_score_monotonic [OF p]
  have t1: "fst (Device_score stableSort integratedGpu) \<le>
      fst (Device_score stableSort
          (withPresentModes integratedGpu
             (insertAt 2 eMailbox (surfacePresentModesKHR (physicalIntrinsic integratedGpu)))))"
    using t [THEN conjunct1] m by blast
  have t2: "fst (Device_score stableSort integratedGpu) \<le>
   fst (Device_score stableSort
          (withSurfaceFormats integratedGpu
             (insertAt 1 \<lparr>format = eR16G16B16A16Sfloat, colorSpace = eExtendedSrgbNonlinearEXT\<rparr>
                (surfaceFormatsKHR (physicalIntrinsic integratedGpu)))))"
    using t [THEN conjunct2] f by blast
  show ?thesis
    using p m f t1 t2 by blast
qed

subsection \<open>Which device \<open>Instance_base::findBestDeviceForWindow\<close> returns\<close>

lemma findBestDeviceLoop_append:
  "findBestDeviceLoop srt (xs @ ys) i st =
   findBestDeviceLoop srt ys (i + length xs) (findBestDeviceLoop srt xs i st)"
proof (induction xs arbitrary: i st)
  case Nil
  show ?case by simp
next
  case (Cons x xs)
  obtain b bd where st: "st = (b, bd)" by (cases st)
  show ?case unfolding st using Cons.IH [of "i + 1"] by (simp add: Let_def)
qed

lemma findBestDeviceLoop_inv:
  assumes "findBestDeviceLoop srt ds 0 (- 1, None) = (b, bd)"
  shows "(\<forall>k<length ds. fst (Device_score srt (ds ! k)) \<le> b) \<and>
     (case bd of
        None \<Rightarrow> ds = [] \<and> b = - 1
      | Some j \<Rightarrow> j < length ds \<and> fst (Device_score srt (ds ! j)) = b \<and>
          (\<forall>k<length ds. j < k \<longrightarrow> fst (Device_score srt (ds ! k)) < b))"
  using assms
proof (induction ds arbitrary: b bd rule: rev_induct)
  case Nil
  then show ?case by simp
next
  case (snoc x xs)
  obtain b0 bd0 where l: "findBestDeviceLoop srt xs 0 (- 1, None) = (b0, bd0)"
    by (cases "findBestDeviceLoop srt xs 0 (- 1, None)")
  note ih = snoc.IH [OF l]
  let ?s = "fst (Device_score srt x)"
  have step: "(b, bd) = (if ?s \<ge> b0 then (?s, Some (length xs)) else (b0, bd0))"
    using snoc.prems by (auto simp: findBestDeviceLoop_append l Let_def split: if_splits)
  show ?case
  proof (cases "?s \<ge> b0")
    case True
    then have e: "b = ?s" "bd = Some (length xs)" using step by simp_all
    show ?thesis unfolding e using ih True
      by (auto simp: nth_append less_Suc_eq)
  next
    case False
    then have e: "b = b0" "bd = bd0" using step by simp_all
    have "bd0 \<noteq> None"
    proof
      assume "bd0 = None"
      then have "b0 = - 1" using ih by simp
      then show False using False Device_score_ge [of srt x] by simp
    qed
    then obtain j where j: "bd0 = Some j" by auto
    show ?thesis unfolding e j using ih False j
      by (auto simp: nth_append less_Suc_eq)
  qed
qed

text \<open>
  C2 (as amended). The loop replaces the best device whenever \<open>score >= bestScore\<close>, so
  among several candidates that attain the maximum total score the last-enumerated one is
  returned, provided that maximum is not the rejection sentinel \<open>-1\<close>.
\<close>

theorem findBestDeviceForWindow_last_maximum:
  assumes "j < length devices"
    and "\<forall>k \<in> {0..<length devices}.
           fst (Device_score srt (devices ! k)) \<le> fst (Device_score srt (devices ! j))"
    and "\<forall>k \<in> {Suc j..<length devices}.
           fst (Device_score srt (devices ! k)) \<noteq> fst (Device_score srt (devices ! j))"
    and "fst (Device_score srt (devices ! j)) \<noteq> - 1"
  shows "findBestDeviceForWindow srt devices = Some j"
proof -
  let ?sc = "\<lambda>k. fst (Device_score srt (devices ! k))"
  obtain b bd where l: "findBestDeviceLoop srt devices 0 (- 1, None) = (b, bd)"
    by (cases "findBestDeviceLoop srt devices 0 (- 1, None)")
  note inv = findBestDeviceLoop_inv [OF l]
  have "devices \<noteq> []" using assms(1) by auto
  then obtain i where i: "bd = Some i" using inv by (cases bd) auto
  have ib: "i < length devices" "?sc i = b" and after: "\<forall>k<length devices. i < k \<longrightarrow> ?sc k < b"
    using inv i by simp_all
  have "?sc j \<le> b" using inv assms(1) by blast
  moreover have "b \<le> ?sc j" using assms(2) ib by auto
  ultimately have bj: "b = ?sc j" by simp
  have "\<not> i < j" using after assms(1) bj by auto
  moreover have "\<not> j < i" using assms(3) ib bj by auto
  ultimately have "i = j" by simp
  then show ?thesis
    using l i bj assms(4) by (simp add: findBestDeviceForWindow_def)
qed

text \<open>
  Stable selection as C2 states it would return the integrated GPU at position 0 here; the
  loop returns the equally scored candidate at position 1.
\<close>

theorem findBestDeviceForWindow_counterexample:
  "fst (Device_score stableSort integratedGpu) = 9 \<and>
   fst (Device_score stableSort (withPresentModes integratedGpu [eFifo])) = 9 \<and>
   findBestDeviceForWindow stableSort
     [integratedGpu, withPresentModes integratedGpu [eFifo]] = Some 1"
  by code_simp

theorem findBestDeviceForWindow_last_maximum_witness:
  "findBestDeviceForWindow stableSort
     [unfitGpu, integratedGpu, withPresentModes integratedGpu [eFifo], headlessGpu] = Some 2"
proof -
  let ?ds = "[unfitGpu, integratedGpu, withPresentModes integratedGpu [eFifo], headlessGpu]"
  have 1: "2 < length ?ds" by simp
  have 2: "\<forall>k \<in> {0..<length ?ds}.
      fst (Device_score stableSort (?ds ! k)) \<le> fst (Device_score stableSort (?ds ! 2))"
    by code_simp
  have 3: "\<forall>k \<in> {Suc 2..<length ?ds}.
      fst (Device_score stableSort (?ds ! k)) \<noteq> fst (Device_score stableSort (?ds ! 2))"
    by code_simp
  have 4: "fst (Device_score stableSort (?ds ! 2)) \<noteq> - 1" by code_simp
  show ?thesis
    by (rule findBestDeviceForWindow_last_maximum [OF 1 2 3 4])
qed

section \<open>Properties of the Queue Capability Negotiator\<close>

subsection \<open>The stable sort meets the contract of \<open>std::sort\<close>\<close>

lemma set_insertBefore: "set (insertBefore x ys) = insert x (set ys)"
  by (induction ys) auto

lemma mset_insertBefore: "mset (insertBefore x ys) = add_mset x (mset ys)"
  by (induction ys) auto

lemma sorted_insertBefore:
  "sorted_wrt (\<lambda>a b. \<not> scoreIsGreater b a) ys \<Longrightarrow>
   sorted_wrt (\<lambda>a b. \<not> scoreIsGreater b a) (insertBefore x ys)"
  by (induction ys) (auto simp: set_insertBefore scoreIsGreater_def)

lemma stableSort_post: "std_sort_post stableSort xs"
  unfolding std_sort_post_def stableSort_def
  by (induction xs) (simp_all add: mset_insertBefore sorted_insertBefore)

subsection \<open>The greedy walk accumulates the union of what it has seen\<close>

lemma QueueCapabilities_or_absorb:
  "handlesAllOff t c \<Longrightarrow> QueueCapabilities_or t c = t"
  by (auto simp: handlesAllOff_def QueueCapabilities_or_def)

lemma QueueCapabilities_or_minus:
  "QueueCapabilities_or t (QueueCapabilities_minus c t) = QueueCapabilities_or t c"
  by (auto simp: QueueCapabilities_or_def QueueCapabilities_minus_def)

lemma unionOfCapabilities_snoc:
  "unionOfCapabilities (xs @ [x]) = QueueCapabilities_or (unionOfCapabilities xs) (snd x)"
  by (simp add: unionOfCapabilities_def)

lemma greedyWalk_total:
  "snd (greedyWalk xs (res, t)) = fold (\<lambda>x acc. QueueCapabilities_or acc (snd x)) xs t"
  by (induction xs arbitrary: res t) (auto simp: QueueCapabilities_or_absorb)

lemma greedyWalk_union:
  "unionOfCapabilities res = t \<Longrightarrow>
   unionOfCapabilities (fst (greedyWalk xs (res, t))) = snd (greedyWalk xs (res, t))"
proof (induction xs arbitrary: res t)
  case Nil
  then show ?case by simp
next
  case (Cons x xs)
  obtain i c where x: "x = (i, c)" by (cases x)
  show ?case
  proof (cases "handlesAllOff t c")
    case True
    then show ?thesis using Cons.IH [OF Cons.prems] by (simp add: x)
  next
    case False
    have "unionOfCapabilities (res @ [(i, QueueCapabilities_minus c t)])
        = QueueCapabilities_or t c"
      using Cons.prems by (simp add: unionOfCapabilities_snoc QueueCapabilities_or_minus)
    from Cons.IH [OF this] False show ?thesis by (simp add: x)
  qed
qed

lemma fold_or_fields:
  "handlesGraphics (fold (\<lambda>x acc. QueueCapabilities_or acc (snd x)) xs t)
     = (handlesGraphics t \<or> (\<exists>x\<in>set xs. handlesGraphics (snd x)))"
  "handlesPresent (fold (\<lambda>x acc. QueueCapabilities_or acc (snd x)) xs t)
     = (handlesPresent t \<or> (\<exists>x\<in>set xs. handlesPresent (snd x)))"
  "handlesCompute (fold (\<lambda>x acc. QueueCapabilities_or acc (snd x)) xs t)
     = (handlesCompute t \<or> (\<exists>x\<in>set xs. handlesCompute (snd x)))"
  by (induction xs arbitrary: t; auto simp: QueueCapabilities_or_def)+

lemma unionOfCapabilities_fields:
  "handlesGraphics (unionOfCapabilities xs) = (\<exists>x\<in>set xs. handlesGraphics (snd x))"
  "handlesPresent (unionOfCapabilities xs) = (\<exists>x\<in>set xs. handlesPresent (snd x))"
  "handlesCompute (unionOfCapabilities xs) = (\<exists>x\<in>set xs. handlesCompute (snd x))"
  by (simp_all add: unionOfCapabilities_def fold_or_fields QueueCapabilities_init_def)

lemma unionOfCapabilities_set:
  "set xs = set ys \<Longrightarrow> unionOfCapabilities xs = unionOfCapabilities ys"
  by (rule QueueCapabilities.equality) (simp_all add: unionOfCapabilities_fields)

lemma findBestQueueFamilyIndices_union:
  "unionOfCapabilities (findBestQueueFamilyIndices srt pd)
     = unionOfCapabilities (srt (queueFamilieScores pd))"
proof -
  have "unionOfCapabilities [] = QueueCapabilities_init"
    by (simp add: unionOfCapabilities_def)
  from greedyWalk_union [OF this] show ?thesis
    by (simp add: findBestQueueFamilyIndices_def greedyWalk_total unionOfCapabilities_def)
qed

text \<open>
  C5. The union of the capability sets of the returned (index, capability) pairs equals
  the union of the capability sets of all queue families of the input, for every sorting
  routine that returns a permutation of its input, as \<open>std::sort\<close> does.
\<close>

theorem findBestQueueFamilyIndices_covers_input:
  assumes "std_sort_post srt (queueFamilieScores pd)"
  shows "unionOfCapabilities (findBestQueueFamilyIndices srt pd)
     = unionOfCapabilities (queueFamilieScores pd)"
proof -
  have "mset (srt (queueFamilieScores pd)) = mset (queueFamilieScores pd)"
    using assms by (simp add: std_sort_post_def)
  then have "set (srt (queueFamilieScores pd)) = set (queueFamilieScores pd)"
    by (rule mset_eq_setD)
  then have "unionOfCapabilities (srt (queueFamilieScores pd))
      = unionOfCapabilities (queueFamilieScores pd)"
    by (rule unionOfCapabilities_set)
  then show ?thesis
    by (simp only: findBestQueueFamilyIndices_union)
qed

theorem findBestQueueFamilyIndices_covers_input_witness:
  "std_sort_post stableSort (queueFamilieScores (physicalIntrinsic discreteGpu)) \<and>
   unionOfCapabilities (findBestQueueFamilyIndices stableSort (physicalIntrinsic discreteGpu))
     = \<lparr>handlesGraphics = True, handlesPresent = True, handlesCompute = True\<rparr> \<and>
   unionOfCapabilities (queueFamilieScores (physicalIntrinsic discreteGpu))
     = \<lparr>handlesGraphics = True, handlesPresent = True, handlesCompute = True\<rparr>"
proof -
  have u: "unionOfCapabilities (queueFamilieScores (physicalIntrinsic discreteGpu))
     = \<lparr>handlesGraphics = True, handlesPresent = True, handlesCompute = True\<rparr>"
    by code_simp
  show ?thesis
    using findBestQueueFamilyIndices_covers_input [OF stableSort_post, of "physicalIntrinsic discreteGpu"]
      stableSort_post u
    by simp
qed

subsection \<open>The order in which the families are walked\<close>












subsection \<open>The greedy walk uses as few families as any cover\<close>










subsection \<open>\<open>std::sort\<close> and the order of families of equal score\<close>
















text \<open>
  The partitioning exchanges elements of the range and loses none, so \<open>std::sort\<close> meets
  its contract whenever the heap sort it falls back to returns a permutation.
\<close>

lemma scanForward_ge: "first \<le> scanForward xs pivot first"
  by (induction xs pivot first rule: scanForward.induct) (subst scanForward.simps, auto)





















section \<open>Properties of the Pipeline Resource Manager\<close>

subsection \<open>The loops in closed form\<close>

lemma fold_vkCall:
  "fold (\<lambda>x p. vkCall (f x) p) xs p = vkCalls (map f xs) p"
proof (induction xs arbitrary: p)
  case Nil
  show ?case by (simp add: vkCalls_def)
next
  case (Cons x xs)
  show ?case by (simp add: Cons.IH) (simp add: vkCalls_def vkCall_def)
qed

lemma invalidate_loop:
  "k \<le> length (commandBuffersValid p) \<Longrightarrow>
   fold (\<lambda>imageIndex p. p\<lparr>commandBuffersValid := (commandBuffersValid p)[imageIndex := False]\<rparr>)
     [0..<k] p
   = p\<lparr>commandBuffersValid := replicate k False @ drop k (commandBuffersValid p)\<rparr>"
proof (induction k)
  case 0
  show ?case by simp
next
  case (Suc k)
  have "(replicate k False @ drop k (commandBuffersValid p))[k := False]
      = replicate (Suc k) False @ drop (Suc k) (commandBuffersValid p)"
    using Suc.prems
    by (simp add: list_update_append replicate_append_same upd_conv_take_nth_drop
        flip: replicate_Suc)
  then show ?case using Suc by simp
qed

lemma invalidateCommandBuffers_eq:
  "invalidateCommandBuffers p
     = p\<lparr>commandBuffersValid := replicate (length (commandBuffersValid p)) False\<rparr>"
  by (simp add: invalidateCommandBuffers_def invalidate_loop)

lemma semaphore_loop:
  "k \<le> length (renderFinishedSemaphores p) \<Longrightarrow>
   fold (\<lambda>i p. case vkFresh p of (semaphore, p) \<Rightarrow>
           (vkCall (CreateSemaphore semaphore) p)
             \<lparr>renderFinishedSemaphores := (renderFinishedSemaphores p)[i := semaphore]\<rparr>)
     [0..<k] p
   = p\<lparr>nextHandle := nextHandle p + k,
       calls := calls p @ map CreateSemaphore [nextHandle p..<nextHandle p + k],
       renderFinishedSemaphores :=
         [nextHandle p..<nextHandle p + k] @ drop k (renderFinishedSemaphores p)\<rparr>"
proof (induction k)
  case 0
  show ?case by simp
next
  case (Suc k)
  have "([nextHandle p..<nextHandle p + k] @ drop k (renderFinishedSemaphores p))
          [k := nextHandle p + k]
      = [nextHandle p..<nextHandle p + Suc k] @ drop (Suc k) (renderFinishedSemaphores p)"
    using Suc.prems
    by (simp add: list_update_append upd_conv_take_nth_drop)
  then show ?case using Suc by (simp add: vkFresh_def vkCall_def)
qed

lemma buildSemaphores_eq:
  "buildSemaphores n p
     = p\<lparr>nextHandle := nextHandle p + n,
         calls := calls p @ map CreateSemaphore [nextHandle p..<nextHandle p + n],
         renderFinishedSemaphores := [nextHandle p..<nextHandle p + n]\<rparr>"
  by (simp add: buildSemaphores_def Let_def semaphore_loop resize_def)

lemma teardownSemaphores_eq:
  "teardownSemaphores p
     = p\<lparr>calls := calls p @ map DestroySemaphore (renderFinishedSemaphores p),
         renderFinishedSemaphores := []\<rparr>"
proof -
  have "\<And>k. k \<le> length (renderFinishedSemaphores p) \<Longrightarrow>
      fold (\<lambda>i p. vkCall (DestroySemaphore (renderFinishedSemaphores p ! i)) p) [0..<k] p
      = p\<lparr>calls := calls p @ map DestroySemaphore (take k (renderFinishedSemaphores p))\<rparr>"
  proof -
    fix k show "k \<le> length (renderFinishedSemaphores p) \<Longrightarrow>
      fold (\<lambda>i p. vkCall (DestroySemaphore (renderFinishedSemaphores p ! i)) p) [0..<k] p
      = p\<lparr>calls := calls p @ map DestroySemaphore (take k (renderFinishedSemaphores p))\<rparr>"
      by (induction k) (simp_all add: vkCall_def take_Suc_conv_app_nth)
  qed
  then show ?thesis by (simp add: teardownSemaphores_def)
qed

lemma buffer_loop:
  "fold (\<lambda>i (buffers, p). case vkFresh p of (buffer, p) \<Rightarrow>
           (buffers @ [buffer], vkCall (CreateBuffer buffer bufferSize) p))
     [0..<k] ([], p)
   = ([nextHandle p..<nextHandle p + k],
      p\<lparr>nextHandle := nextHandle p + k,
        calls := calls p @ map (\<lambda>b. CreateBuffer b bufferSize) [nextHandle p..<nextHandle p + k]\<rparr>)"
  by (induction k) (simp_all add: vkFresh_def vkCall_def)

lemma createVertexBuffers_eq:
  "createVertexBuffers n bufferSize p
   = ([nextHandle p..<nextHandle p + n],
      p\<lparr>nextHandle := nextHandle p + n,
        calls := calls p @ map (\<lambda>b. CreateBuffer b bufferSize) [nextHandle p..<nextHandle p + n]\<rparr>)"
  by (simp add: createVertexBuffers_def buffer_loop)

lemma shader_loop:
  "fold (\<lambda>i p. case vkFresh p of (h, p) \<Rightarrow>
           (vkCall (CreateShaderModule h) p)\<lparr>shaderModules := shaderModules p @ [h]\<rparr>)
     [0..<k] p
   = p\<lparr>nextHandle := nextHandle p + k,
       calls := calls p @ map CreateShaderModule [nextHandle p..<nextHandle p + k],
       shaderModules := shaderModules p @ [nextHandle p..<nextHandle p + k]\<rparr>"
  by (induction k) (simp_all add: vkFresh_def vkCall_def)

lemma buildShaders_eq:
  "buildShaders p
     = p\<lparr>nextHandle := nextHandle p + nrShaders p,
         calls := calls p @ map CreateShaderModule [nextHandle p..<nextHandle p + nrShaders p],
         shaderModules := [nextHandle p..<nextHandle p + nrShaders p],
         shaderStages := [nextHandle p..<nextHandle p + nrShaders p]\<rparr>"
  by (simp add: buildShaders_def Let_def shader_loop)

lemma teardownShaders_eq:
  "teardownShaders p
     = p\<lparr>calls := calls p @ map DestroyShaderModule (shaderModules p),
         shaderModules := [], shaderStages := []\<rparr>"
  unfolding teardownShaders_def Let_def fold_vkCall
  by (simp add: vkCalls_def)

lemma teardownVertexBuffers_eq:
  "teardownVertexBuffers p
     = p\<lparr>calls := calls p @ [UnmapMemory (vertexBufferMemory p), FreeMemory (vertexBufferMemory p)]
                 @ map DestroyBuffer (vertexBuffers p),
         vertexBufferData := None, vertexBufferMemory := 0, vertexBuffers := [],
         vertexBufferOffsets := [], vertexBufferSizes := []\<rparr>"
  unfolding teardownVertexBuffers_def Let_def fold_vkCall
  by (simp add: vkCalls_def vkCall_def)

lemma teardownCommandBuffers_eq:
  "teardownCommandBuffers p
     = p\<lparr>calls := calls p @ [FreeCommandBuffers (commandBuffers p)],
         commandBuffers := [], commandBuffersValid := []\<rparr>"
  by (simp add: teardownCommandBuffers_def Let_def vkCall_def)

lemma buildCommandBuffers_eq:
  "n \<le> uint32_max \<Longrightarrow>
   buildCommandBuffers n p
     = Inr (p\<lparr>nextHandle := nextHandle p + n,
              calls := calls p @ [AllocateCommandBuffers [nextHandle p..<nextHandle p + n]],
              commandBuffers := [nextHandle p..<nextHandle p + n],
              commandBuffersValid := replicate n False\<rparr>)"
  by (simp add: buildCommandBuffers_def Let_def vkCall_def invalidateCommandBuffers_eq resize_def)

lemma buildVertexBuffers_eq:
  "0 < n \<Longrightarrow>
   buildVertexBuffers n p
     = Inr (p\<lparr>nextHandle := nextHandle p + n + 1,
              calls := calls p @
                map (\<lambda>b. CreateBuffer b (vertexStride p * maximumNumberOfVertices p))
                  [nextHandle p..<nextHandle p + n] @
                [AllocateMemory (nextHandle p + n) [nextHandle p..<nextHandle p + n],
                 MapMemory (nextHandle p + n) (n * (vertexStride p * maximumNumberOfVertices p))],
              vertexBuffers := [nextHandle p..<nextHandle p + n],
              vertexBufferMemory := nextHandle p + n,
              vertexBufferOffsets :=
                map (\<lambda>i. i * (vertexStride p * maximumNumberOfVertices p)) [0..<n],
              vertexBufferSizes := replicate n (vertexStride p * maximumNumberOfVertices p),
              vertexBufferDataSize := n * (vertexStride p * maximumNumberOfVertices p),
              vertexBufferData := Some (nextHandle p + n)\<rparr>)"
proof -
  assume n: "0 < n"
  have l: "last (map (\<lambda>i. i * (vertexStride p * maximumNumberOfVertices p)) [0..<n])
      = (n - 1) * (vertexStride p * maximumNumberOfVertices p)"
    using n by (cases n) simp_all
  have "(n - 1) * (vertexStride p * maximumNumberOfVertices p)
      + vertexStride p * maximumNumberOfVertices p
      = n * (vertexStride p * maximumNumberOfVertices p)"
    using n by (cases n) simp_all
  then show ?thesis
    using n l
    by (simp add: buildVertexBuffers_def Let_def createVertexBuffers_eq
        allocateDeviceMemoryAndBind_def vkFresh_def vkCall_def)
qed

lemma buildPipeline_eq:
  "length (shaderStages p) \<le> uint32_max \<Longrightarrow>
   buildPipeline rp extent p
     = Inr (p\<lparr>nextHandle := nextHandle p + 2,
              calls := calls p @
                [CreatePipelineLayout (nextHandle p),
                 CreateGraphicsPipeline (nextHandle p + 1) rp extent (shaderStages p)],
              renderPass := rp, pipelineLayout := nextHandle p,
              viewports := [extent], scissors := [extent],
              intrinsic := nextHandle p + 1\<rparr>)"
  by (simp add: buildPipeline_def Let_def vkFresh_def vkCall_def)

text \<open>A build for a device change, with a positive image count that fits a
  \<open>uint32_t\<close>, succeeds and leaves a built pipeline with every valid-bit clear.\<close>

lemma buildForDeviceChange_built:
  assumes "0 < n" and "n \<le> uint32_max" and "nrShaders p \<le> uint32_max"
    and "length (swapchainFramebuffers p) = n"
  shows "\<exists>p'. buildForDeviceChange rp extent n p = Inr p' \<and> built p' \<and>
     length (commandBuffers p') = n \<and> commandBuffersValid p' = replicate n False"
  using assms
  by (simp add: buildForDeviceChange_def andThen_def buildShaders_eq buildVertexBuffers_eq
      buildCommandBuffers_eq buildSemaphores_eq buildPipeline_eq built_def perImageAligned_def)

subsection \<open>The example pipelines, evaluated\<close>

lemma examplePipeline_eq:
  "examplePipeline =
    \<lparr>nextHandle = 114,
      calls =
      [CreateShaderModule 100, CreateShaderModule 101, CreateBuffer 102 96,
       CreateBuffer 103 96, CreateBuffer 104 96,
       AllocateMemory 105 [102, 103, 104], MapMemory 105 288,
       AllocateCommandBuffers [106, 107, 108], CreateSemaphore 109,
       CreateSemaphore 110, CreateSemaphore 111, CreatePipelineLayout 112,
       CreateGraphicsPipeline 113 7 \<lparr>width = 800, height = 600\<rparr> [100, 101]],
    swapchainFramebuffers = [11, 12, 13], nrShaders = 2, vertexStride = 16,
    maximumNumberOfVertices = 6, shaderModules = [100, 101],
    shaderStages = [100, 101], vertexBuffers = [102, 103, 104],
    vertexBufferMemory = 105, vertexBufferOffsets = [0, 96, 192],
    vertexBufferSizes = [96, 96, 96], vertexBufferDataSize = 288,
    vertexBufferData = Some 105, commandBuffers = [106, 107, 108],
    commandBuffersValid = [False, False, False],
    renderFinishedSemaphores = [109, 110, 111], renderPass = 7,
    pipelineLayout = 112, viewports = [\<lparr>width = 800, height = 600\<rparr>],
    scissors = [\<lparr>width = 800, height = 600\<rparr>], intrinsic = 113\<rparr>"
  by (simp add: examplePipeline_def unbuiltPipeline_def buildForDeviceChange_def andThen_def
      buildShaders_eq buildVertexBuffers_eq buildCommandBuffers_eq buildSemaphores_eq
      buildPipeline_eq uint32_max_def numeral_3_eq_3)

lemma built_examplePipeline: "built examplePipeline"
  by (simp add: examplePipeline_eq built_def perImageAligned_def uint32_max_def)

lemma renderedPipeline_eq:
  "renderedPipeline =
     examplePipeline
       \<lparr>calls := calls examplePipeline @
          [CmdReset 107, CmdBegin 107,
           CmdBeginRenderPass 107 7 12 \<lparr>width = 800, height = 600\<rparr>,
           CmdBindPipeline 107 113, CmdBindVertexBuffers 107 [103] [0], CmdDraw 107,
           CmdEndRenderPass 107, CmdEnd 107, QueueSubmit 50 107 110],
        commandBuffersValid := [False, True, False]\<rparr>"
  by (simp add: renderedPipeline_def examplePipeline_eq render_def validateCommandBuffer_def
      andThen_def Let_def vkCalls_def vkCall_def recordedCommands_def)

subsection \<open>Rendering records a command buffer only while its valid-bit is clear\<close>

lemma validateCommandBuffer_eq:
  assumes "built p" and "imageIndex < length (commandBuffers p)"
  shows "validateCommandBuffer imageIndex p
     = Inr (if commandBuffersValid p ! imageIndex then p
            else p\<lparr>calls := calls p @ recordedCommands p imageIndex,
                   commandBuffersValid := (commandBuffersValid p)[imageIndex := True]\<rparr>)"
  using assms
  by (auto simp: validateCommandBuffer_def built_def perImageAligned_def Let_def vkCalls_def)

lemma nrRecordings_recorded:
  "nrRecordings (p\<lparr>calls := calls p @ recordedCommands p imageIndex @ cs\<rparr>)
     = nrRecordings p + 1 + nrRecordings (p\<lparr>calls := cs\<rparr>)"
  by (simp add: nrRecordings_def recordedCommands_def Let_def)

lemma render_eq:
  assumes "built p" and "imageIndex < length (commandBuffers p)"
  shows "render imageIndex inputSemaphore p
     = Inr (renderFinishedSemaphores p ! imageIndex,
            p\<lparr>calls := calls p @
                  (if commandBuffersValid p ! imageIndex then []
                   else recordedCommands p imageIndex) @
                  [QueueSubmit inputSemaphore (commandBuffers p ! imageIndex)
                     (renderFinishedSemaphores p ! imageIndex)],
              commandBuffersValid := (commandBuffersValid p)[imageIndex := True]\<rparr>)"
proof (cases "commandBuffersValid p ! imageIndex")
  case True
  then have "(commandBuffersValid p)[imageIndex := True] = commandBuffersValid p"
    by (metis list_update_id)
  then show ?thesis
    using assms True
    by (simp add: render_def validateCommandBuffer_eq andThen_def built_def
        perImageAligned_def vkCall_def)
next
  case False
  then show ?thesis
    using assms
    by (simp add: render_def validateCommandBuffer_eq andThen_def built_def
        perImageAligned_def vkCall_def)
qed

lemma render_built:
  assumes "built p" and "imageIndex < length (commandBuffers p)"
    and "render imageIndex inputSemaphore p = Inr (s, p')"
  shows "built p' \<and> commandBuffers p' = commandBuffers p \<and>
     renderFinishedSemaphores p' = renderFinishedSemaphores p \<and>
     commandBuffersValid p' ! imageIndex"
  using assms(3) assms(1,2) unfolding render_eq [OF assms(1,2)]
  by (auto simp: built_def perImageAligned_def)

text \<open>
  C7 (as amended). On a built pipeline and an image index below the built image count,
  \<open>render\<close> records the command buffer of that image if and only if its valid-bit is
  clear, sets the valid-bit, submits the command buffer with the given wait semaphore and
  returns the render-finished semaphore of the image. Two calls in a row therefore record
  at most once: exactly once when the valid-bit was clear before the first call, and not
  at all when it was already set.
\<close>

theorem render_records_iff_invalid:
  assumes "built p" and "imageIndex < length (commandBuffers p)"
  shows
    "render imageIndex inputSemaphore p
       = Inr (renderFinishedSemaphores p ! imageIndex,
              p\<lparr>calls := calls p @
                    (if commandBuffersValid p ! imageIndex then []
                     else recordedCommands p imageIndex) @
                    [QueueSubmit inputSemaphore (commandBuffers p ! imageIndex)
                       (renderFinishedSemaphores p ! imageIndex)],
                commandBuffersValid := (commandBuffersValid p)[imageIndex := True]\<rparr>) \<and>
     (\<exists>p''. renderTwice imageIndex inputSemaphore inputSemaphore2 p
               = Inr (renderFinishedSemaphores p ! imageIndex, p'') \<and>
            nrRecordings p'' =
              nrRecordings p + (if commandBuffersValid p ! imageIndex then 0 else 1))"
proof
  show r1: "render imageIndex inputSemaphore p
       = Inr (renderFinishedSemaphores p ! imageIndex,
              p\<lparr>calls := calls p @
                    (if commandBuffersValid p ! imageIndex then []
                     else recordedCommands p imageIndex) @
                    [QueueSubmit inputSemaphore (commandBuffers p ! imageIndex)
                       (renderFinishedSemaphores p ! imageIndex)],
                commandBuffersValid := (commandBuffersValid p)[imageIndex := True]\<rparr>)"
    (is "_ = Inr (?s, ?p')")
    by (rule render_eq [OF assms])
  note b = render_built [OF assms r1]
  have i': "imageIndex < length (commandBuffers ?p')" using assms(2) by simp
  have r2: "render imageIndex inputSemaphore2 ?p'
      = Inr (?s, ?p'\<lparr>calls := calls ?p' @
                [QueueSubmit inputSemaphore2 (commandBuffers p ! imageIndex) ?s]\<rparr>)"
    (is "_ = Inr (_, ?p'')")
    using b render_eq [OF b [THEN conjunct1] i', of inputSemaphore2]
    by simp
  have "nrRecordings ?p'' = nrRecordings p + (if commandBuffersValid p ! imageIndex then 0 else 1)"
    by (simp add: nrRecordings_def recordedCommands_def Let_def)
  moreover have "renderTwice imageIndex inputSemaphore inputSemaphore2 p = Inr (?s, ?p'')"
    by (simp add: renderTwice_def andThen_def r1 r2)
  ultimately show "\<exists>p''. renderTwice imageIndex inputSemaphore inputSemaphore2 p
               = Inr (renderFinishedSemaphores p ! imageIndex, p'') \<and>
            nrRecordings p'' =
              nrRecordings p + (if commandBuffersValid p ! imageIndex then 0 else 1)"
    by blast
qed

text \<open>
  C7 concludes that two calls of \<open>render\<close> in a row perform exactly one recording. On
  a built pipeline whose command buffer for image 1 is already valid they perform none.
\<close>

theorem render_twice_counterexample:
  "built renderedPipeline \<and>
   commandBuffersValid renderedPipeline ! 1 \<and>
   map_sum id (\<lambda>(s, p). nrRecordings p) (renderTwice 1 50 51 renderedPipeline)
     = Inr (nrRecordings renderedPipeline)"
  by (simp add: renderedPipeline_eq examplePipeline_eq built_def perImageAligned_def
      uint32_max_def renderTwice_def render_def validateCommandBuffer_def andThen_def
      Let_def vkCall_def nrRecordings_def)

theorem render_records_iff_invalid_witness:
  "built examplePipeline \<and> 1 < length (commandBuffers examplePipeline) \<and>
   \<not> commandBuffersValid examplePipeline ! 1 \<and>
   render 1 50 examplePipeline = Inr (110, renderedPipeline) \<and>
   (\<exists>p''. renderTwice 1 50 51 examplePipeline = Inr (110, p'') \<and>
          nrRecordings p'' = nrRecordings examplePipeline + 1)"
proof -
  have i: "1 < length (commandBuffers examplePipeline)"
    by (simp add: examplePipeline_eq)
  have v: "\<not> commandBuffersValid examplePipeline ! 1"
    by (simp add: examplePipeline_eq)
  have s: "renderFinishedSemaphores examplePipeline ! 1 = 110"
    by (simp add: examplePipeline_eq)
  note t = render_records_iff_invalid [OF built_examplePipeline i, of 50 51]
  have r: "render 1 50 examplePipeline = Inr (110, renderedPipeline)"
    unfolding t [THEN conjunct1] renderedPipeline_eq
    by (simp add: examplePipeline_eq recordedCommands_def)
  show ?thesis
    using t [THEN conjunct2] built_examplePipeline i v r s by simp
qed

subsection \<open>Rebuilding for a swap-chain change\<close>

lemma rebuildResources_eq:
  assumes "0 < n" and "n \<le> uint32_max"
  shows
    "andThen (buildVertexBuffers n
                (teardownVertexBuffers (teardownCommandBuffers (teardownSemaphores p))))
       (\<lambda>p. andThen (buildCommandBuffers n p) (\<lambda>p. Inr (buildSemaphores n p)))
     = Inr (p\<lparr>nextHandle := nextHandle p + n + 1 + n + n,
              calls := calls p @ teardownResourceCalls p @ buildResourceCalls p n,
              vertexBuffers := [nextHandle p..<nextHandle p + n],
              vertexBufferMemory := nextHandle p + n,
              vertexBufferOffsets :=
                map (\<lambda>i. i * (vertexStride p * maximumNumberOfVertices p)) [0..<n],
              vertexBufferSizes := replicate n (vertexStride p * maximumNumberOfVertices p),
              vertexBufferDataSize := n * (vertexStride p * maximumNumberOfVertices p),
              vertexBufferData := Some (nextHandle p + n),
              commandBuffers := [nextHandle p + n + 1..<nextHandle p + n + 1 + n],
              commandBuffersValid := replicate n False,
              renderFinishedSemaphores :=
                [nextHandle p + n + 1 + n..<nextHandle p + n + 1 + n + n]\<rparr>)"
  using assms
  by (simp add: teardownSemaphores_eq teardownCommandBuffers_eq teardownVertexBuffers_eq
      buildVertexBuffers_eq buildCommandBuffers_eq buildSemaphores_eq andThen_def
      teardownResourceCalls_def buildResourceCalls_def Let_def)

text \<open>
  C8. \<open>buildForSwapchainChange\<close> tears down and rebuilds the vertex buffers, command
  buffers and semaphores if and only if the requested image count differs from the number
  of command buffers built before (the trace then holds the teardown and build calls, and
  the three containers hold fresh handles; otherwise it holds neither and the containers
  are unchanged). In both cases every valid-bit is cleared, the pipeline layout and the
  pipeline-state object are created anew for the given render pass and extent, and the
  shader modules and shader stages are left as they were. The pipeline has one valid-bit
  per command buffer and shader stages that a \<open>uint32_t\<close> counts, which holds of every
  built pipeline; the number of frame buffers of the window is not constrained, so that
  the image count may be the one of a window whose swap chain has changed. The image count
  is positive and fits a \<open>uint32_t\<close>. When the window has that many frame buffers
  (and, for an unchanged count, the pipeline was built), the pipeline is built afterwards.
\<close>

theorem buildForSwapchainChange_effect:
  assumes "length (commandBuffersValid p) = length (commandBuffers p)"
    and "length (shaderStages p) \<le> uint32_max"
    and "0 < n" and "n \<le> uint32_max"
  shows
    "\<exists>p'. buildForSwapchainChange rp extent n p = Inr p' \<and>
       calls p' =
         calls p @
         (if n \<noteq> length (commandBuffers p)
          then teardownResourceCalls p @ buildResourceCalls p n else []) @
         [CreatePipelineLayout (pipelineLayout p'),
          CreateGraphicsPipeline (intrinsic p') rp extent (shaderStages p)] \<and>
       (if n \<noteq> length (commandBuffers p)
        then vertexBuffers p' = [nextHandle p..<nextHandle p + n] \<and>
             commandBuffers p' = [nextHandle p + n + 1..<nextHandle p + n + 1 + n] \<and>
             renderFinishedSemaphores p' =
               [nextHandle p + n + 1 + n..<nextHandle p + n + 1 + n + n]
        else vertexBuffers p' = vertexBuffers p \<and>
             commandBuffers p' = commandBuffers p \<and>
             renderFinishedSemaphores p' = renderFinishedSemaphores p) \<and>
       commandBuffersValid p' = replicate n False \<and>
       renderPass p' = rp \<and> viewports p' = [extent] \<and> scissors p' = [extent] \<and>
       nextHandle p \<le> pipelineLayout p' \<and> pipelineLayout p' < intrinsic p' \<and>
       intrinsic p' < nextHandle p' \<and>
       shaderModules p' = shaderModules p \<and> shaderStages p' = shaderStages p \<and>
       swapchainFramebuffers p' = swapchainFramebuffers p \<and>
       (length (swapchainFramebuffers p) = n \<and>
        (n = length (commandBuffers p) \<longrightarrow> built p) \<longrightarrow> built p')"
proof (cases "n = length (commandBuffers p)")
  case True
  show ?thesis
    using True assms(1,2)
    by (simp add: buildForSwapchainChange_def andThen_def invalidateCommandBuffers_eq
        buildPipeline_eq built_def perImageAligned_def)
next
  case False
  show ?thesis
    using False assms(2)
    by (simp add: buildForSwapchainChange_def Let_def rebuildResources_eq [OF assms(3,4)]
        invalidateCommandBuffers_eq buildPipeline_eq)
       (simp add: andThen_def invalidateCommandBuffers_eq buildPipeline_eq built_def
        perImageAligned_def)
qed

theorem buildForSwapchainChange_effect_witness:
  "length (commandBuffersValid resizedPipeline) = length (commandBuffers resizedPipeline) \<and>
   length (shaderStages resizedPipeline) \<le> uint32_max \<and>
   (0 :: nat) < 2 \<and> 2 \<le> uint32_max \<and>
   length (swapchainFramebuffers resizedPipeline) = 2 \<and>
   2 \<noteq> length (commandBuffers resizedPipeline) \<and>
   (\<exists>p'. buildForSwapchainChange 8 \<lparr>width = 1024, height = 768\<rparr> 2 resizedPipeline = Inr p' \<and>
      vertexBuffers p' = [114, 115] \<and> commandBuffers p' = [117, 118] \<and>
      renderFinishedSemaphores p' = [119, 120] \<and>
      commandBuffersValid p' = [False, False] \<and>
      renderPass p' = 8 \<and> scissors p' = [\<lparr>width = 1024, height = 768\<rparr>] \<and>
      shaderStages p' = [100, 101] \<and> swapchainFramebuffers p' = [21, 22] \<and> built p') \<and>
   built renderedPipeline \<and>
   3 = length (commandBuffers renderedPipeline) \<and>
   (\<exists>p'. buildForSwapchainChange 8 \<lparr>width = 1024, height = 768\<rparr> 3 renderedPipeline = Inr p' \<and>
      calls p' = calls renderedPipeline @
        [CreatePipelineLayout (pipelineLayout p'),
         CreateGraphicsPipeline (intrinsic p') 8 \<lparr>width = 1024, height = 768\<rparr> [100, 101]] \<and>
      vertexBuffers p' = [102, 103, 104] \<and> commandBuffers p' = [106, 107, 108] \<and>
      renderFinishedSemaphores p' = [109, 110, 111] \<and>
      commandBuffersValid p' = [False, False, False] \<and> built p')"
proof -
  have b: "built renderedPipeline"
    by (simp add: renderedPipeline_eq examplePipeline_eq built_def perImageAligned_def
        uint32_max_def)
  have n2: "(0 :: nat) < 2" "2 \<le> uint32_max" and n3: "(0 :: nat) < 3" "3 \<le> uint32_max"
    by (simp_all add: uint32_max_def)
  have f: "nextHandle renderedPipeline = 114" "length (commandBuffers renderedPipeline) = 3"
    "shaderStages renderedPipeline = [100, 101]"
    "vertexBuffers renderedPipeline = [102, 103, 104]"
    "commandBuffers renderedPipeline = [106, 107, 108]"
    "renderFinishedSemaphores renderedPipeline = [109, 110, 111]"
    "length (commandBuffersValid renderedPipeline) = 3"
    "length (swapchainFramebuffers renderedPipeline) = 3"
    by (simp_all add: renderedPipeline_eq examplePipeline_eq)
  have g: "nextHandle resizedPipeline = 114" "length (commandBuffers resizedPipeline) = 3"
    "shaderStages resizedPipeline = [100, 101]"
    "length (commandBuffersValid resizedPipeline) = 3"
    "swapchainFramebuffers resizedPipeline = [21, 22]"
    by (simp_all add: resizedPipeline_def renderedPipeline_eq examplePipeline_eq)
  have s: "length (shaderStages renderedPipeline) \<le> uint32_max"
    "length (shaderStages resizedPipeline) \<le> uint32_max"
    by (simp_all add: f g uint32_max_def)
  have v: "length (commandBuffersValid renderedPipeline) = length (commandBuffers renderedPipeline)"
    "length (commandBuffersValid resizedPipeline) = length (commandBuffers resizedPipeline)"
    by (simp_all add: f g)
  note t2 = buildForSwapchainChange_effect [OF v(2) s(2) n2, of 8 "\<lparr>width = 1024, height = 768\<rparr>"]
  note t3 = buildForSwapchainChange_effect [OF v(1) s(1) n3, of 8 "\<lparr>width = 1024, height = 768\<rparr>"]
  have 2: "\<exists>p'. buildForSwapchainChange 8 \<lparr>width = 1024, height = 768\<rparr> 2 resizedPipeline = Inr p' \<and>
      vertexBuffers p' = [114, 115] \<and> commandBuffers p' = [117, 118] \<and>
      renderFinishedSemaphores p' = [119, 120] \<and>
      commandBuffersValid p' = [False, False] \<and>
      renderPass p' = 8 \<and> scissors p' = [\<lparr>width = 1024, height = 768\<rparr>] \<and>
      shaderStages p' = [100, 101] \<and> swapchainFramebuffers p' = [21, 22] \<and> built p'"
    using t2 by (auto simp: g numeral_2_eq_2)
  have 3: "\<exists>p'. buildForSwapchainChange 8 \<lparr>width = 1024, height = 768\<rparr> 3 renderedPipeline = Inr p' \<and>
      calls p' = calls renderedPipeline @
        [CreatePipelineLayout (pipelineLayout p'),
         CreateGraphicsPipeline (intrinsic p') 8 \<lparr>width = 1024, height = 768\<rparr> [100, 101]] \<and>
      vertexBuffers p' = [102, 103, 104] \<and> commandBuffers p' = [106, 107, 108] \<and>
      renderFinishedSemaphores p' = [109, 110, 111] \<and>
      commandBuffersValid p' = [False, False, False] \<and> built p'"
    using t3 b by (auto simp: f numeral_3_eq_3)
  show ?thesis using b n2 2 3 f(2) g s v by simp
qed

subsection \<open>The per-image containers stay aligned\<close>

lemma buildVertexBuffers_zero:
  "buildVertexBuffers 0 p = Inl (OutOfRange VertexBufferOffsets)"
  by (simp add: buildVertexBuffers_def Let_def createVertexBuffers_eq
      allocateDeviceMemoryAndBind_def vkFresh_def)

lemma buildCommandBuffers_overflow:
  "uint32_max < n \<Longrightarrow> buildCommandBuffers n p = Inl BadNumericCast"
  by (simp add: buildCommandBuffers_def)

lemma buildPipeline_containers:
  assumes "buildPipeline rp extent p = Inr p'"
  shows "commandBuffers p' = commandBuffers p \<and>
     commandBuffersValid p' = commandBuffersValid p \<and>
     renderFinishedSemaphores p' = renderFinishedSemaphores p"
  using assms
  by (auto simp: buildPipeline_def Let_def vkFresh_def vkCall_def split: if_splits)

lemma rebuild_containers:
  assumes "andThen (buildVertexBuffers n p0)
       (\<lambda>p. andThen (buildCommandBuffers n p) (\<lambda>p. Inr (buildSemaphores n p))) = Inr p1"
  shows "length (commandBuffers p1) = n \<and> length (commandBuffersValid p1) = n \<and>
     length (renderFinishedSemaphores p1) = n"
proof -
  have n0: "0 < n"
  proof (rule ccontr)
    assume "\<not> 0 < n"
    then show False using assms by (simp add: buildVertexBuffers_zero andThen_def)
  qed
  have n1: "n \<le> uint32_max"
  proof (rule ccontr)
    assume "\<not> n \<le> uint32_max"
    then show False
      using assms n0 by (simp add: buildVertexBuffers_eq buildCommandBuffers_overflow andThen_def)
  qed
  show ?thesis
    using assms n0 n1
    by (auto simp: buildVertexBuffers_eq buildCommandBuffers_eq buildSemaphores_eq andThen_def)
qed

lemma buildForDeviceChange_aligned:
  assumes "buildForDeviceChange rp extent n p = Inr p'"
  shows "perImageAligned p' \<and> length (commandBuffers p') = n"
proof -
  obtain p1 where r: "andThen (buildVertexBuffers n (buildShaders p))
       (\<lambda>p. andThen (buildCommandBuffers n p) (\<lambda>p. Inr (buildSemaphores n p))) = Inr p1"
    and b: "buildPipeline rp extent p1 = Inr p'"
    using assms
    by (auto simp: buildForDeviceChange_def Let_def andThen_def split: sum.splits)
  show ?thesis
    using rebuild_containers [OF r] buildPipeline_containers [OF b]
    by (simp add: perImageAligned_def)
qed

lemma buildForSwapchainChange_aligned:
  assumes "perImageAligned p" and "buildForSwapchainChange rp extent n p = Inr p'"
  shows "perImageAligned p' \<and> length (commandBuffers p') = n"
proof (cases "n = length (commandBuffers p)")
  case True
  then have b: "buildPipeline rp extent (invalidateCommandBuffers p) = Inr p'"
    using assms(2) by (simp add: buildForSwapchainChange_def andThen_def)
  show ?thesis
    using buildPipeline_containers [OF b] assms(1) True
    by (simp add: perImageAligned_def invalidateCommandBuffers_eq)
next
  case False
  obtain p1 where r: "andThen (buildVertexBuffers n
         (teardownVertexBuffers (teardownCommandBuffers (teardownSemaphores p))))
       (\<lambda>p. andThen (buildCommandBuffers n p) (\<lambda>p. Inr (buildSemaphores n p))) = Inr p1"
    and b: "buildPipeline rp extent (invalidateCommandBuffers p1) = Inr p'"
    using assms(2) False
    by (auto simp: buildForSwapchainChange_def Let_def andThen_def split: sum.splits)
  show ?thesis
    using rebuild_containers [OF r] buildPipeline_containers [OF b]
    by (simp add: perImageAligned_def invalidateCommandBuffers_eq)
qed

lemma teardownForDeviceChange_aligned: "perImageAligned (teardownForDeviceChange p)"
  by (simp add: teardownForDeviceChange_def Let_def teardownPipeline_def vkCall_def
      teardownSemaphores_eq teardownCommandBuffers_eq teardownVertexBuffers_eq
      teardownShaders_eq perImageAligned_def)

lemma validateCommandBuffer_containers:
  assumes "validateCommandBuffer imageIndex p = Inr p'"
  shows "commandBuffers p' = commandBuffers p \<and>
     length (commandBuffersValid p') = length (commandBuffersValid p) \<and>
     renderFinishedSemaphores p' = renderFinishedSemaphores p"
  using assms
  by (auto simp: validateCommandBuffer_def Let_def vkCalls_def split: if_splits)

lemma render_containers:
  assumes "render imageIndex inputSemaphore p = Inr (s, p')"
  shows "commandBuffers p' = commandBuffers p \<and>
     length (commandBuffersValid p') = length (commandBuffersValid p) \<and>
     renderFinishedSemaphores p' = renderFinishedSemaphores p"
proof -
  obtain p1 where v: "validateCommandBuffer imageIndex p = Inr p1"
    and "p' = vkCall (QueueSubmit inputSemaphore (commandBuffers p1 ! imageIndex)
                        (renderFinishedSemaphores p1 ! imageIndex)) p1"
    using assms
    by (auto simp: render_def andThen_def Let_def split: sum.splits if_splits)
  then show ?thesis
    using validateCommandBuffer_containers [OF v] by (simp add: vkCall_def)
qed

lemma validateCommandBuffer_in_bounds:
  assumes "perImageAligned p" and "imageIndex < length (commandBuffers p)"
  shows "validateCommandBuffer imageIndex p \<noteq> Inl (OutOfRange CommandBuffersValid) \<and>
     validateCommandBuffer imageIndex p \<noteq> Inl (OutOfRange CommandBuffers) \<and>
     validateCommandBuffer imageIndex p \<noteq> Inl (OutOfRange RenderFinishedSemaphores)"
  using assms
  by (auto simp: validateCommandBuffer_def perImageAligned_def Let_def split: if_splits)

lemma render_in_bounds:
  assumes "perImageAligned p" and "imageIndex < length (commandBuffers p)"
  shows "render imageIndex inputSemaphore p \<noteq> Inl (OutOfRange CommandBuffersValid) \<and>
     render imageIndex inputSemaphore p \<noteq> Inl (OutOfRange CommandBuffers) \<and>
     render imageIndex inputSemaphore p \<noteq> Inl (OutOfRange RenderFinishedSemaphores)"
proof (cases "validateCommandBuffer imageIndex p")
  case (Inl e)
  then have "e \<noteq> OutOfRange CommandBuffersValid \<and> e \<noteq> OutOfRange CommandBuffers \<and>
      e \<noteq> OutOfRange RenderFinishedSemaphores"
    using validateCommandBuffer_in_bounds [OF assms] by simp
  then show ?thesis by (simp add: render_def andThen_def Inl)
next
  case (Inr p1)
  note c = validateCommandBuffer_containers [OF Inr]
  have "imageIndex < length (renderFinishedSemaphores p1)"
    "imageIndex < length (commandBuffers p1)"
    using c assms by (simp_all add: perImageAligned_def)
  then show ?thesis by (simp add: render_def andThen_def Inr Let_def)
qed

text \<open>
  C10. The build, teardown and invalidate operations of a pipeline (and \<open>render\<close>) keep
  \<open>commandBuffersValid\<close>, \<open>commandBuffers\<close> and \<open>renderFinishedSemaphores\<close> of the
  same length, which after a build is the image count built for; hence for an image index
  below that count the indexing of the three containers in \<open>validateCommandBuffer\<close> and
  \<open>render\<close> is in bounds. The operations are the public ones; each runs its private
  steps (\<open>buildCommandBuffers\<close>, \<open>buildSemaphores\<close> and their teardowns) as a whole.
\<close>

theorem perImageAligned_invariant:
  "(\<forall>p'. buildForDeviceChange rp extent n p = Inr p' \<longrightarrow>
          perImageAligned p' \<and> length (commandBuffers p') = n) \<and>
   perImageAligned (teardownForDeviceChange p) \<and>
   (perImageAligned p \<longrightarrow>
      (\<forall>p'. buildForSwapchainChange rp extent n p = Inr p' \<longrightarrow>
             perImageAligned p' \<and> length (commandBuffers p') = n) \<and>
      perImageAligned (teardownForSwapchainChange p) \<and>
      length (commandBuffers (teardownForSwapchainChange p)) = length (commandBuffers p) \<and>
      perImageAligned (invalidateCommandBuffers p) \<and>
      length (commandBuffers (invalidateCommandBuffers p)) = length (commandBuffers p) \<and>
      (\<forall>imageIndex s p'. render imageIndex inputSemaphore p = Inr (s, p') \<longrightarrow>
             perImageAligned p' \<and> length (commandBuffers p') = length (commandBuffers p)) \<and>
      (\<forall>imageIndex < length (commandBuffers p).
          imageIndex < length (commandBuffersValid p) \<and>
          imageIndex < length (renderFinishedSemaphores p) \<and>
          validateCommandBuffer imageIndex p \<noteq> Inl (OutOfRange CommandBuffersValid) \<and>
          validateCommandBuffer imageIndex p \<noteq> Inl (OutOfRange CommandBuffers) \<and>
          render imageIndex inputSemaphore p \<noteq> Inl (OutOfRange CommandBuffersValid) \<and>
          render imageIndex inputSemaphore p \<noteq> Inl (OutOfRange CommandBuffers) \<and>
          render imageIndex inputSemaphore p \<noteq> Inl (OutOfRange RenderFinishedSemaphores)))"
proof (intro conjI impI allI)
  fix p' assume "buildForDeviceChange rp extent n p = Inr p'"
  then show "perImageAligned p'" "length (commandBuffers p') = n"
    using buildForDeviceChange_aligned by blast+
next
  show "perImageAligned (teardownForDeviceChange p)"
    by (rule teardownForDeviceChange_aligned)
next
  fix p' assume "perImageAligned p" "buildForSwapchainChange rp extent n p = Inr p'"
  then show "perImageAligned p'" "length (commandBuffers p') = n"
    using buildForSwapchainChange_aligned by blast+
next
  assume a: "perImageAligned p"
  show "perImageAligned (teardownForSwapchainChange p)"
    "length (commandBuffers (teardownForSwapchainChange p)) = length (commandBuffers p)"
    "perImageAligned (invalidateCommandBuffers p)"
    "length (commandBuffers (invalidateCommandBuffers p)) = length (commandBuffers p)"
    using a
    by (simp_all add: teardownForSwapchainChange_def teardownPipeline_def Let_def vkCall_def
        invalidateCommandBuffers_eq perImageAligned_def)
next
  fix imageIndex s p'
  assume a: "perImageAligned p" "render imageIndex inputSemaphore p = Inr (s, p')"
  show "perImageAligned p'" "length (commandBuffers p') = length (commandBuffers p)"
    using render_containers [OF a(2)] a(1) by (simp_all add: perImageAligned_def)
next
  fix imageIndex
  assume a: "perImageAligned p" "imageIndex < length (commandBuffers p)"
  show "imageIndex < length (commandBuffersValid p)"
    "imageIndex < length (renderFinishedSemaphores p)"
    using a by (simp_all add: perImageAligned_def)
  show "validateCommandBuffer imageIndex p \<noteq> Inl (OutOfRange CommandBuffersValid)"
    "validateCommandBuffer imageIndex p \<noteq> Inl (OutOfRange CommandBuffers)"
    using validateCommandBuffer_in_bounds [OF a] by simp_all
  show "render imageIndex inputSemaphore p \<noteq> Inl (OutOfRange CommandBuffersValid)"
    "render imageIndex inputSemaphore p \<noteq> Inl (OutOfRange CommandBuffers)"
    "render imageIndex inputSemaphore p \<noteq> Inl (OutOfRange RenderFinishedSemaphores)"
    using render_in_bounds [OF a] by simp_all
qed

theorem perImageAligned_invariant_witness:
  "buildForDeviceChange 7 \<lparr>width = 800, height = 600\<rparr> 3 unbuiltPipeline = Inr examplePipeline \<and>
   perImageAligned examplePipeline \<and> length (commandBuffers examplePipeline) = 3 \<and>
   perImageAligned (teardownForDeviceChange examplePipeline) \<and>
   perImageAligned (invalidateCommandBuffers examplePipeline) \<and>
   render 1 50 examplePipeline = Inr (110, renderedPipeline) \<and>
   perImageAligned renderedPipeline \<and>
   2 < length (commandBuffers renderedPipeline) \<and>
   2 < length (commandBuffersValid renderedPipeline) \<and>
   2 < length (renderFinishedSemaphores renderedPipeline) \<and>
   render 2 60 renderedPipeline \<noteq> Inl (OutOfRange RenderFinishedSemaphores) \<and>
   (\<exists>p'. buildForSwapchainChange 8 \<lparr>width = 1024, height = 768\<rparr> 2 renderedPipeline = Inr p' \<and>
      perImageAligned p' \<and> length (commandBuffers p') = 2)"
proof -
  have b: "buildForDeviceChange 7 \<lparr>width = 800, height = 600\<rparr> 3 unbuiltPipeline
      = Inr examplePipeline"
    by (simp add: examplePipeline_eq unbuiltPipeline_def buildForDeviceChange_def andThen_def
        buildShaders_eq buildVertexBuffers_eq buildCommandBuffers_eq buildSemaphores_eq
        buildPipeline_eq uint32_max_def numeral_3_eq_3)
  note t0 = perImageAligned_invariant [of 7 "\<lparr>width = 800, height = 600\<rparr>" 3 unbuiltPipeline]
  have a: "perImageAligned examplePipeline" "length (commandBuffers examplePipeline) = 3"
    using t0 b by blast+
  note t1 = perImageAligned_invariant [of 7 "\<lparr>width = 800, height = 600\<rparr>" 3 examplePipeline 50]
  have td: "perImageAligned (teardownForDeviceChange examplePipeline)"
    "perImageAligned (invalidateCommandBuffers examplePipeline)"
    using t1 a(1) by blast+
  have r: "render 1 50 examplePipeline = Inr (110, renderedPipeline)"
    unfolding renderedPipeline_eq
    by (simp add: examplePipeline_eq render_def validateCommandBuffer_def andThen_def Let_def
        vkCalls_def vkCall_def recordedCommands_def)
  have ar: "perImageAligned renderedPipeline"
    "length (commandBuffers renderedPipeline) = length (commandBuffers examplePipeline)"
    using t1 a(1) r by blast+
  have i: "2 < length (commandBuffers renderedPipeline)" using ar(2) a(2) by simp
  note t2 = perImageAligned_invariant
    [of 8 "\<lparr>width = 1024, height = 768\<rparr>" 2 renderedPipeline 60]
  have ib: "2 < length (commandBuffersValid renderedPipeline)"
    "2 < length (renderFinishedSemaphores renderedPipeline)"
    "render 2 60 renderedPipeline \<noteq> Inl (OutOfRange RenderFinishedSemaphores)"
    using t2 ar(1) i by blast+
  obtain p' where
    s: "buildForSwapchainChange 8 \<lparr>width = 1024, height = 768\<rparr> 2 renderedPipeline = Inr p'"
    by (simp add: renderedPipeline_eq examplePipeline_eq buildForSwapchainChange_def Let_def
        andThen_def teardownSemaphores_eq teardownCommandBuffers_eq teardownVertexBuffers_eq
        buildVertexBuffers_eq buildCommandBuffers_eq buildSemaphores_eq
        invalidateCommandBuffers_eq buildPipeline_eq uint32_max_def)
  have "perImageAligned p' \<and> length (commandBuffers p') = 2"
    using t2 ar(1) s by blast
  then show ?thesis using b a td r ar(1) i ib s by blast
qed

end
